theory Spec2Isabelle
  imports Main
begin

section \<open>Strings\<close>

text \<open>
  A JavaScript string is modelled as a \<^typ>\<open>string\<close>; a \<^typ>\<open>char\<close> stands for a UTF-16 code unit
  below 256. \<open>String.prototype.trim\<close> removes white space and line terminators from both
  ends; the code points it removes that fit a \<^typ>\<open>char\<close> are TAB, LF, VT, FF, CR, SPACE and
  NBSP (the others, U+1680, U+2000..U+200A, U+2028, U+2029, U+202F, U+205F, U+3000 and
  U+FEFF, lie outside the model's alphabet).
\<close>

definition is_space :: "char \<Rightarrow> bool" where
  "is_space c = (c \<in> set [CHR 0x09, CHR 0x0A, CHR 0x0B, CHR 0x0C, CHR 0x0D, CHR 0x20, CHR 0xA0])"

definition trim :: "string \<Rightarrow> string" where
  "trim s = rev (dropWhile is_space (rev (dropWhile is_space s)))"

text \<open>\<open>s.split(c)\<close> for a one-character separator: never empty, \<open>''''.split(',')\<close> is \<open>['''']\<close>.\<close>

fun split :: "char \<Rightarrow> string \<Rightarrow> string list" where
  "split c [] = [[]]"
| "split c (x # xs) =
     (if x = c then [] # split c xs
      else (case split c xs of [] \<Rightarrow> [[x]] | p # ps \<Rightarrow> (x # p) # ps))"

definition startsWith :: "string \<Rightarrow> string \<Rightarrow> bool" where
  "startsWith s p = (take (length p) s = p)"

text \<open>\<open>xs.join(sep)\<close>.\<close>

fun join :: "string \<Rightarrow> string list \<Rightarrow> string" where
  "join sep [] = []"
| "join sep [x] = x"
| "join sep (x # y # ys) = x @ sep @ join sep (y # ys)"

text \<open>
  A non-negative integer in a template literal (\<open>`${Date.now()}`\<close>) is printed in decimal,
  without leading zeros.
\<close>

definition digit :: "nat \<Rightarrow> char" where
  "digit d = ''0123456789'' ! d"

fun show_nat :: "nat \<Rightarrow> string" where
  "show_nat n = (if n < 10 then [digit n] else show_nat (n div 10) @ [digit (n mod 10)])"

declare show_nat.simps [simp del]

section \<open>Errors\<close>

text \<open>
  \<open>Error m\<close> is a JavaScript \<open>Error\<close> with message \<open>m\<close>: a rejected promise or a thrown
  exception, which \<open>try/catch\<close> catches. \<open>Crash m\<close> is an \<open>'error'\<close> event emitted on a
  stream that has no listener for it: Node raises it as an uncaught exception, the process
  ends, and no \<open>catch\<close> or \<open>finally\<close> block of the running request is executed.
\<close>

datatype error = Error string | Crash string

fun message :: "error \<Rightarrow> string" where
  "message (Error m) = m"
| "message (Crash m) = m"

section \<open>The tabular validator (validateCSV, the 'end' handler)\<close>

text \<open>
  csv-parse with \<open>columns: true\<close> yields one object per record, from column name to field;
  a column the file does not have reads as \<open>undefined\<close> (here \<open>None\<close>).
\<close>

type_synonym row = "string \<rightharpoonup> string"

text \<open>Truthiness of a field: \<open>undefined\<close> and the empty string are falsy, every other string is truthy.\<close>

fun truthy :: "string option \<Rightarrow> bool" where
  "truthy None = False"
| "truthy (Some s) = (s \<noteq> [])"

definition row_isValid :: "row \<Rightarrow> bool" where
  "row_isValid row =
     (truthy (row ''S. No.'') \<and>
      truthy (row ''Product Name'') \<and>
      truthy (row ''Input Image Urls'') \<and>
      (case row ''Input Image Urls'' of
         None \<Rightarrow> False
       | Some urls \<Rightarrow> list_all (\<lambda>url. startsWith (trim url) ''https://'') (split CHR '','' urls)))"

text \<open>The \<open>'end'\<close> handler of validateCSV, on the records collected by the \<open>'data'\<close> handler.\<close>

definition on_end :: "row list \<Rightarrow> error + row list" where
  "on_end results =
     (if list_all row_isValid results then Inr results
      else Inl (Error ''Invalid CSV format or data''))"

section \<open>The job store\<close>

text \<open>
  Modelled from the spec: the schema of the store (tables \<open>requests\<close>, \<open>products\<close> and
  \<open>images\<close>) is not part of the sources; the columns are the ones the statements of the
  controller name, the identifiers that \<open>RETURNING id\<close> yields are opaque and unique, here
  numbers drawn from one counter per table. The columns \<open>created_at\<close> and \<open>updated_at\<close>,
  which no statement reads, are left out.
\<close>

record request_row =
  req_id :: nat
  req_status :: string

record product_row =
  prod_id :: nat
  request_id :: nat
  serial_number :: "string option"
  product_name :: "string option"

record image_row =
  product_id :: nat
  input_url :: string
  processing_status :: string
  output_url :: "string option"

record tables =
  requests :: "request_row list"
  products :: "product_row list"
  images :: "image_row list"
  request_seq :: nat
  product_seq :: nat

text \<open>The statements the controller sends, with their parameters.\<close>

datatype stmt =
    BEGIN
  | COMMIT
  | ROLLBACK
  | INSERT_request string
  | INSERT_product nat "string option" "string option"
  | INSERT_image nat string string
  | UPDATE_request string nat
  | UPDATE_images string "string option" nat string

text \<open>\<open>SELECT id FROM products WHERE request_id = $3\<close>\<close>

definition products_of :: "nat \<Rightarrow> tables \<Rightarrow> nat list" where
  "products_of requestId t = map prod_id (filter (\<lambda>p. request_id p = requestId) (products t))"

text \<open>A data statement on the tables: the rows it returns (their ids) and the new tables.\<close>

fun exec :: "stmt \<Rightarrow> tables \<Rightarrow> nat list \<times> tables" where
  "exec (INSERT_request st) t =
     ([request_seq t],
      t\<lparr>requests := requests t @ [\<lparr>req_id = request_seq t, req_status = st\<rparr>],
        request_seq := Suc (request_seq t)\<rparr>)"
| "exec (INSERT_product requestId serialNumber productName) t =
     ([product_seq t],
      t\<lparr>products := products t @
           [\<lparr>prod_id = product_seq t, request_id = requestId,
             serial_number = serialNumber, product_name = productName\<rparr>],
        product_seq := Suc (product_seq t)\<rparr>)"
| "exec (INSERT_image productId url st) t =
     ([],
      t\<lparr>images := images t @
           [\<lparr>product_id = productId, input_url = url, processing_status = st,
             output_url = None\<rparr>]\<rparr>)"
| "exec (UPDATE_request st requestId) t =
     ([],
      t\<lparr>requests :=
           map (\<lambda>r. if req_id r = requestId then r\<lparr>req_status := st\<rparr> else r) (requests t)\<rparr>)"
| "exec (UPDATE_images st outputUrl requestId inputUrl) t =
     ([],
      t\<lparr>images :=
           map (\<lambda>i. if product_id i \<in> set (products_of requestId t) \<and> input_url i = inputUrl
                    then i\<lparr>processing_status := st, output_url := outputUrl\<rparr> else i)
             (images t)\<rparr>)"
| "exec BEGIN t = ([], t)"
| "exec COMMIT t = ([], t)"
| "exec ROLLBACK t = ([], t)"

section \<open>The world the controller runs in\<close>

text \<open>
  What the process can observe outside the store: the responses it sends, the files it
  removes, and the HTTP requests it makes to other hosts.
\<close>

datatype event =
    Respond nat string "nat option"
  | Unlink string
  | Get string
  | Post string nat string

text \<open>
  \<^item> \<open>db\<close> is the committed state of the store, \<open>txn\<close> the working copy of the transaction the
    client in use has open, \<open>history\<close> every state the store has been committed to, in order;
  \<^item> \<open>files\<close> is the file system, from path to contents;
  \<^item> \<open>fault\<close> is the environment's say on the calls into collaborators (the pool and its
    clients, the network, the image codec, the file system): the \<open>n\<close>-th such call of the
    run throws \<open>Error m\<close> when \<open>fault n = Some m\<close>; \<open>calls\<close> counts them;
  \<^item> \<open>now k\<close> is what the \<open>k\<close>-th reading of \<open>Date.now()\<close> returns, \<open>clock_reads\<close> counts them;
  \<^item> \<open>webhook_env\<close> is \<open>process.env.WEBHOOK_URL\<close>.
\<close>

record world =
  db :: tables
  txn :: "tables option"
  history :: "tables list"
  files :: "string \<rightharpoonup> string"
  events :: "event list"
  calls :: nat
  fault :: "nat \<Rightarrow> string option"
  clock_reads :: nat
  now :: "nat \<Rightarrow> nat"
  webhook_env :: "string option"

text \<open>An asynchronous computation: it ends with a value or an error, in a new world.\<close>

type_synonym 'a io = "world \<Rightarrow> (error + 'a) \<times> world"

definition ret :: "'a \<Rightarrow> 'a io" where
  "ret x w = (Inr x, w)"

definition throw :: "error \<Rightarrow> 'a io" where
  "throw e w = (Inl e, w)"

text \<open>\<open>const x = await m; k x\<close>\<close>

definition await :: "'a io \<Rightarrow> ('a \<Rightarrow> 'b io) \<Rightarrow> 'b io" where
  "await m k w = (case m w of (Inl e, w') \<Rightarrow> (Inl e, w') | (Inr x, w') \<Rightarrow> k x w')"

text \<open>\<open>try { m } catch (e) { h e }\<close>\<close>

definition try_catch :: "'a io \<Rightarrow> (error \<Rightarrow> 'a io) \<Rightarrow> 'a io" where
  "try_catch m h w =
     (case m w of
        (Inl (Error msg), w') \<Rightarrow> h (Error msg) w'
      | (Inl (Crash msg), w') \<Rightarrow> (Inl (Crash msg), w')
      | (Inr x, w') \<Rightarrow> (Inr x, w'))"

text \<open>\<open>try { m } finally { f }\<close>: the outcome of \<open>m\<close>, unless \<open>f\<close> throws.\<close>

definition try_finally :: "'a io \<Rightarrow> unit io \<Rightarrow> 'a io" where
  "try_finally m f w =
     (case m w of
        (Inl (Crash msg), w') \<Rightarrow> (Inl (Crash msg), w')
      | (r, w') \<Rightarrow> (case f w' of (Inl e, w'') \<Rightarrow> (Inl e, w'') | (Inr u, w'') \<Rightarrow> (r, w'')))"

definition emit :: "event \<Rightarrow> unit io" where
  "emit e w = (Inr (), w\<lparr>events := events w @ [e]\<rparr>)"

text \<open>One call into a collaborator: it throws when the environment says so.\<close>

definition outcall :: "unit io" where
  "outcall w =
     (case fault w (calls w) of
        None \<Rightarrow> (Inr (), w\<lparr>calls := Suc (calls w)\<rparr>)
      | Some m \<Rightarrow> (Inl (Error m), w\<lparr>calls := Suc (calls w)\<rparr>))"

text \<open>\<open>Date.now()\<close>\<close>

definition date_now :: "nat io" where
  "date_now w = (Inr (now w (clock_reads w)), w\<lparr>clock_reads := Suc (clock_reads w)\<rparr>)"

subsection \<open>The pool and its clients\<close>

text \<open>
  Modelled from the spec: the module \<open>utils/db\<close> that exports the pool is not part of the
  sources. The pool hands out clients; a write is durable and visible to every later read
  once it is committed, each statement outside a transaction is committed by itself, and a
  transaction is atomic: all of its writes take effect at COMMIT, or none does.
\<close>

text \<open>The store is committed to the tables \<open>t\<close>.\<close>

definition set_db :: "tables \<Rightarrow> world \<Rightarrow> world" where
  "set_db t w = w\<lparr>db := t, history := history w @ [t]\<rparr>"

text \<open>\<open>pool.connect()\<close>: a client with no transaction open.\<close>

definition pool_connect :: "unit io" where
  "pool_connect = await outcall (\<lambda>u w. (Inr (), w\<lparr>txn := None\<rparr>))"

text \<open>
  \<open>client.query(sql, params)\<close>. A statement that throws has no effect. Inside a transaction
  the statements work on its copy of the tables, which COMMIT makes the committed state;
  outside a transaction each statement is committed by itself.
\<close>

definition query :: "stmt \<Rightarrow> nat list io" where
  "query s =
     await outcall (\<lambda>u w.
       case s of
         BEGIN \<Rightarrow> (Inr [], w\<lparr>txn := Some (db w)\<rparr>)
       | COMMIT \<Rightarrow> (Inr [], (case txn w of None \<Rightarrow> w | Some t \<Rightarrow> set_db t w)\<lparr>txn := None\<rparr>)
       | ROLLBACK \<Rightarrow> (Inr [], w\<lparr>txn := None\<rparr>)
       | _ \<Rightarrow>
          (case txn w of
             None \<Rightarrow> (case exec s (db w) of (rows, t) \<Rightarrow> (Inr rows, set_db t w))
           | Some t0 \<Rightarrow> (case exec s t0 of (rows, t) \<Rightarrow> (Inr rows, w\<lparr>txn := Some t\<rparr>))))"

text \<open>\<open>client.release()\<close>: a transaction the client still has open is lost with it.\<close>

definition release :: "unit io" where
  "release w = (Inr (), w\<lparr>txn := None\<rparr>)"

text \<open>\<open>result.rows[0].id\<close>\<close>

definition rows0_id :: "nat list \<Rightarrow> nat io" where
  "rows0_id rows =
     (case rows of
        [] \<Rightarrow> throw (Error ''Cannot read properties of undefined'')
      | r # rest \<Rightarrow> ret r)"

subsection \<open>The file system and the network\<close>

text \<open>
  \<open>fs.unlinkSync(path)\<close> throws when there is no such file, and when the file system refuses
  the removal (\<open>EPERM\<close>, \<open>EBUSY\<close>, ...): then the file stays.
\<close>

definition unlinkSync :: "string \<Rightarrow> unit io" where
  "unlinkSync path w =
     (case files w path of
        None \<Rightarrow> (Inl (Error ''ENOENT: no such file or directory''), w)
      | Some content \<Rightarrow>
          await outcall
            (\<lambda>u w'. (Inr (), w'\<lparr>files := (files w')(path := None), events := events w' @ [Unlink path]\<rparr>)) w)"

text \<open>\<open>fs.writeFile(path, content, callback)\<close>\<close>

definition writeFile :: "string \<Rightarrow> string \<Rightarrow> unit io" where
  "writeFile path content =
     await outcall (\<lambda>u w. (Inr (), w\<lparr>files := (files w)(path \<mapsto> content)\<rparr>))"

text \<open>
  \<open>axios.get(url, { responseType: 'arraybuffer' })\<close> and the codec
  \<open>sharp(buffer).jpeg({ quality: 50 }).toBuffer()\<close>: the bytes they yield reach no result of
  the controller, only whether they throw does.
\<close>

definition axios_get :: "string \<Rightarrow> unit io" where
  "axios_get url = await (emit (Get url)) (\<lambda>u. outcall)"

definition sharp_jpeg :: "unit io" where
  "sharp_jpeg = outcall"

definition axios_post :: "string \<Rightarrow> nat \<Rightarrow> string \<Rightarrow> unit io" where
  "axios_post url requestId outputCsvUrl = await (emit (Post url requestId outputCsvUrl)) (\<lambda>u. outcall)"

text \<open>\<open>res.status(code).json({ message, requestId })\<close>\<close>

definition respond :: "nat \<Rightarrow> string \<Rightarrow> nat option \<Rightarrow> unit io" where
  "respond code msg requestId = emit (Respond code msg requestId)"

section \<open>The controller\<close>

text \<open>
  validateCSV. The parser (csv-parse, with \<open>columns: true, trim: true\<close>) is a parameter: from the
  contents of a file to its records, or to the message of the error it emits. The
  \<open>'error'\<close> listener is on the parser; the read stream piped into it has none, so a file
  that cannot be opened ends the process.
\<close>

definition validateCSV :: "(string \<Rightarrow> string + row list) \<Rightarrow> string \<Rightarrow> row list io" where
  "validateCSV parse filePath w =
     (case files w filePath of
        None \<Rightarrow> (Inl (Crash ''ENOENT: no such file or directory''), w)
      | Some content \<Rightarrow>
         (case parse content of
            Inl m \<Rightarrow> (Inl (Error m), w)
          | Inr results \<Rightarrow> (on_end results, w)))"

definition createRequest :: "nat io" where
  "createRequest =
     await pool_connect (\<lambda>client.
     try_finally
       (try_catch
          (await (query BEGIN) (\<lambda>u.
           await (query (INSERT_request ''pending'')) (\<lambda>result.
           await (query COMMIT) (\<lambda>u.
           rows0_id result))))
          (\<lambda>e. await (query ROLLBACK) (\<lambda>u. throw e)))
       release)"

text \<open>\<open>inputUrls.split(',').map(url => url.trim())\<close>; \<open>split\<close> of \<open>undefined\<close> throws a TypeError.\<close>

definition url_list :: "string option \<Rightarrow> string list io" where
  "url_list inputUrls =
     (case inputUrls of
        None \<Rightarrow> throw (Error ''Cannot read properties of undefined'')
      | Some s \<Rightarrow> ret (map trim (split CHR '','' s)))"

text \<open>storeProductData: the loop over the URLs of a row, the loop over the rows, the transaction.\<close>

fun insert_images :: "nat \<Rightarrow> string list \<Rightarrow> unit io" where
  "insert_images productId [] = ret ()"
| "insert_images productId (url # urls) =
     await (query (INSERT_image productId url ''pending'')) (\<lambda>u.
     insert_images productId urls)"

fun store_rows :: "nat \<Rightarrow> row list \<Rightarrow> unit io" where
  "store_rows requestId [] = ret ()"
| "store_rows requestId (row # data) =
     await (query (INSERT_product requestId (row ''S. No.'') (row ''Product Name''))) (\<lambda>productResult.
     await (rows0_id productResult) (\<lambda>productId.
     await (url_list (row ''Input Image Urls'')) (\<lambda>urls.
     await (insert_images productId urls) (\<lambda>u.
     store_rows requestId data))))"

definition storeProductData :: "nat \<Rightarrow> row list \<Rightarrow> unit io" where
  "storeProductData requestId data =
     await pool_connect (\<lambda>client.
     try_finally
       (try_catch
          (await (query BEGIN) (\<lambda>u.
           await (store_rows requestId data) (\<lambda>u.
           await (query COMMIT) (\<lambda>u.
           ret ()))))
          (\<lambda>e. await (query ROLLBACK) (\<lambda>u. throw e)))
       release)"

definition updateRequestStatus :: "nat \<Rightarrow> string \<Rightarrow> unit io" where
  "updateRequestStatus requestId status =
     await pool_connect (\<lambda>client.
     try_finally
       (try_catch
          (await (query (UPDATE_request status requestId)) (\<lambda>u. ret ()))
          (\<lambda>e. throw e))
       release)"

definition updateImageStatus :: "nat \<Rightarrow> string \<Rightarrow> string \<Rightarrow> string option \<Rightarrow> unit io" where
  "updateImageStatus requestId inputUrl status outputUrl =
     await pool_connect (\<lambda>client.
     try_finally
       (try_catch
          (await (query (UPDATE_images status outputUrl requestId inputUrl)) (\<lambda>u. ret ()))
          (\<lambda>e. throw e))
       release)"

definition compressImage :: "string \<Rightarrow> string io" where
  "compressImage url =
     await (axios_get url) (\<lambda>response.
     await sharp_jpeg (\<lambda>compressedBuffer.
     await date_now (\<lambda>t.
     ret (''https://compressed-image-url.com/'' @ show_nat t @ ''.jpg''))))"

text \<open>A row of the report: the four columns of \<open>processedData\<close>.\<close>

record out_row =
  out_serial :: "string option"
  out_name :: "string option"
  out_inputs :: string
  out_outputs :: string

text \<open>
  generateOutputCsv. The serializer (csv-stringify, with \<open>header: true\<close>) is a parameter: from
  the rows to the text, or to the message of the error it calls back with.
\<close>

definition generateOutputCsv :: "(out_row list \<Rightarrow> string + string) \<Rightarrow> out_row list \<Rightarrow> string io" where
  "generateOutputCsv stringify data =
     await date_now (\<lambda>t.
       (case stringify data of
          Inl m \<Rightarrow> throw (Error m)
        | Inr output \<Rightarrow>
           await (writeFile (''./output_'' @ show_nat t @ ''.csv'') output) (\<lambda>u.
           ret (''./output_'' @ show_nat t @ ''.csv''))))"

text \<open>\<open>process.env.WEBHOOK_URL || 'https://example.com/webhook'\<close>\<close>

definition webhookUrl :: "world \<Rightarrow> string" where
  "webhookUrl w =
     (if truthy (webhook_env w) then (case webhook_env w of Some u \<Rightarrow> u | None \<Rightarrow> [])
      else ''https://example.com/webhook'')"

definition sendWebhookNotification :: "nat \<Rightarrow> string \<Rightarrow> unit io" where
  "sendWebhookNotification requestId outputCsvPath w =
     try_catch
       (axios_post (webhookUrl w) requestId (''https://your-api-domain.com/download/'' @ outputCsvPath))
       (\<lambda>error. ret ()) w"

text \<open>processImages: the loop over the URLs of a row, the loop over the rows, the routine.\<close>

fun process_urls :: "nat \<Rightarrow> string list \<Rightarrow> string list \<Rightarrow> string list io" where
  "process_urls requestId [] outputUrls = ret outputUrls"
| "process_urls requestId (url # rest) outputUrls =
     await (compressImage url) (\<lambda>outputUrl.
     await (updateImageStatus requestId url ''completed'' (Some outputUrl)) (\<lambda>u.
     process_urls requestId rest (outputUrls @ [outputUrl])))"

fun process_rows :: "nat \<Rightarrow> row list \<Rightarrow> out_row list \<Rightarrow> out_row list io" where
  "process_rows requestId [] processedData = ret processedData"
| "process_rows requestId (row # data) processedData =
     await (url_list (row ''Input Image Urls'')) (\<lambda>inputUrlList.
     await (process_urls requestId inputUrlList []) (\<lambda>outputUrls.
     process_rows requestId data
       (processedData @
          [\<lparr>out_serial = row ''S. No.'', out_name = row ''Product Name'',
            out_inputs = (case row ''Input Image Urls'' of Some s \<Rightarrow> s | None \<Rightarrow> []),
            out_outputs = join '', '' outputUrls\<rparr>])))"

definition processImages :: "(out_row list \<Rightarrow> string + string) \<Rightarrow> nat \<Rightarrow> row list \<Rightarrow> unit io" where
  "processImages stringify requestId data =
     try_catch
       (await (process_rows requestId data []) (\<lambda>processedData.
        await (generateOutputCsv stringify processedData) (\<lambda>outputCsvPath.
        await (updateRequestStatus requestId ''completed'') (\<lambda>u.
        sendWebhookNotification requestId outputCsvPath))))
       (\<lambda>error. updateRequestStatus requestId ''failed'')"

text \<open>
  uploadDoc, on \<open>req.file\<close> (the path multer stored the upload at, if the request has a file).
  \<open>processImages(requestId, validatedData)\<close> is called without \<open>await\<close>: the handler sends its
  response without waiting for it. The value of the model's \<open>uploadDoc\<close> is that detached call,
  when the handler makes it.
\<close>

definition uploadDoc ::
    "(string \<Rightarrow> string + row list) \<Rightarrow> string option \<Rightarrow> (nat \<times> row list) option io" where
  "uploadDoc parse req_file =
     try_catch
       (case req_file of
          None \<Rightarrow> await (respond 400 ''No file uploaded'' None) (\<lambda>u. ret None)
        | Some filePath \<Rightarrow>
           try_catch
             (await (validateCSV parse filePath) (\<lambda>validatedData.
              await createRequest (\<lambda>requestId.
              await (storeProductData requestId validatedData) (\<lambda>u.
              await (updateRequestStatus requestId ''processing'') (\<lambda>u.
              await (unlinkSync filePath) (\<lambda>u.
              await (respond 200 ''File uploaded and processing started'' (Some requestId)) (\<lambda>u.
              ret (Some (requestId, validatedData)))))))))
             (\<lambda>validationError.
                await (unlinkSync filePath) (\<lambda>u.
                await (respond 400 (message validationError) None) (\<lambda>u.
                ret None))))
       (\<lambda>error. await (respond 500 ''Internal server error'' None) (\<lambda>u. ret None))"

text \<open>One ingestion request and the background processing it starts, run to its end.\<close>

definition upload_and_process ::
    "(string \<Rightarrow> string + row list) \<Rightarrow> (out_row list \<Rightarrow> string + string) \<Rightarrow> string option \<Rightarrow> world \<Rightarrow> world" where
  "upload_and_process parse stringify req_file w =
     (case uploadDoc parse req_file w of
        (Inr (Some (requestId, validatedData)), w') \<Rightarrow>
           snd (processImages stringify requestId validatedData w')
      | (r, w') \<Rightarrow> w')"


section \<open>The vocabulary of the specification\<close>

text \<open>
  A valid row, in the words of the specification: a non-empty sequence label, a non-empty
  name, and a non-empty comma-delimited list of URLs each of which, trimmed, begins with
  \<open>https://\<close>.
\<close>

definition valid_row_spec :: "row \<Rightarrow> bool" where
  "valid_row_spec row =
     (\<exists>label name urls.
        row ''S. No.'' = Some label \<and> label \<noteq> [] \<and>
        row ''Product Name'' = Some name \<and> name \<noteq> [] \<and>
        row ''Input Image Urls'' = Some urls \<and> urls \<noteq> [] \<and>
        (\<forall>url \<in> set (split CHR '','' urls). \<exists>rest. trim url = ''https://'' @ rest))"

text \<open>The ImageRefs under a job: the images of the products of the request.\<close>

definition images_of :: "nat \<Rightarrow> tables \<Rightarrow> image_row list" where
  "images_of requestId t = filter (\<lambda>i. product_id i \<in> set (products_of requestId t)) (images t)"

text \<open>The URLs of a row and of a table, as storeProductData and processImages split them.\<close>

definition row_urls :: "row \<Rightarrow> string list" where
  "row_urls row = (case row ''Input Image Urls'' of None \<Rightarrow> [] | Some s \<Rightarrow> map trim (split CHR '','' s))"

definition all_urls :: "row list \<Rightarrow> string list" where
  "all_urls data = concat (map row_urls data)"

text \<open>
  The invariant of the specification on completed jobs: every request in status
  \<open>completed\<close> has all the images under it in status \<open>completed\<close>.
\<close>

definition completed_inv :: "tables \<Rightarrow> bool" where
  "completed_inv t =
     (\<forall>r \<in> set (requests t). req_status r = ''completed'' \<longrightarrow>
        (\<forall>i \<in> set (images_of (req_id r) t). processing_status i = ''completed''))"

text \<open>No row of the request is in status \<open>completed\<close>.\<close>

definition not_completed :: "nat \<Rightarrow> tables \<Rightarrow> bool" where
  "not_completed requestId t =
     (\<forall>r \<in> set (requests t). req_id r = requestId \<longrightarrow> req_status r \<noteq> ''completed'')"


section \<open>Vocabulary of the proofs\<close>

text \<open>
  The identifiers in use lie below the counters they are drawn from (a store that was only
  ever written through the statements above is of this kind).
\<close>

definition wf_tables :: "tables \<Rightarrow> bool" where
  "wf_tables t =
     ((\<forall>r \<in> set (requests t). req_id r < request_seq t) \<and>
      (\<forall>p \<in> set (products t). prod_id p < product_seq t \<and> request_id p < request_seq t) \<and>
      (\<forall>i \<in> set (images t). product_id i < product_seq t))"

text \<open>
  The tables \<open>t'\<close> are \<open>t\<close> with products of the request and pending images of these new
  products added, the input URLs of the new images taken from \<open>U\<close>.
\<close>

definition adds_items :: "nat \<Rightarrow> string set \<Rightarrow> tables \<Rightarrow> tables \<Rightarrow> bool" where
  "adds_items requestId U t t' =
     (requests t' = requests t \<and> request_seq t' = request_seq t \<and> product_seq t \<le> product_seq t' \<and>
      (\<exists>ps is.
         products t' = products t @ ps \<and> images t' = images t @ is \<and>
         (\<forall>p \<in> set ps. request_id p = requestId \<and> product_seq t \<le> prod_id p \<and> prod_id p < product_seq t') \<and>
         (\<forall>i \<in> set is. product_seq t \<le> product_id i \<and> product_id i < product_seq t' \<and>
            input_url i \<in> U \<and> processing_status i = ''pending'' \<and> output_url i = None)))"

text \<open>
  The store is well formed, and the invariant on completed jobs holds of its committed state
  and of every state it was committed to before.
\<close>

definition store_ok :: "world \<Rightarrow> bool" where
  "store_ok w = (wf_tables (db w) \<and> completed_inv (db w) \<and> (\<forall>t \<in> set (history w). completed_inv t))"

text \<open>
  A job under processing: it is not completed, its images have their input URLs in \<open>U\<close>, and
  those with an input URL in \<open>D\<close> (the URLs done) are completed.
\<close>

definition ready :: "nat \<Rightarrow> string set \<Rightarrow> string set \<Rightarrow> world \<Rightarrow> bool" where
  "ready requestId U D w =
     (store_ok w \<and> not_completed requestId (db w) \<and>
      (\<forall>i \<in> set (images_of requestId (db w)).
         input_url i \<in> U \<and> (input_url i \<in> D \<longrightarrow> processing_status i = ''completed'')))"

text \<open>
  A computation that leaves the files, the events and the clock alone and never ends the
  process; a computation that only completes images and never ends the process.
\<close>

definition quiet :: "'a io \<Rightarrow> bool" where
  "quiet m = (\<forall>w r w'. m w = (r, w') \<longrightarrow>
      files w' = files w \<and> events w' = events w \<and> clock_reads w' = clock_reads w \<and>
      (\<forall>c. r \<noteq> Inl (Crash c)))"


text \<open>
  A computation under which the history of the store only grows, by the states the store is
  committed to, the last of which is the state it leaves.
\<close>

definition recorded :: "'a io \<Rightarrow> bool" where
  "recorded m = (\<forall>w r w'. m w = (r, w') \<longrightarrow>
      (\<exists>hs. history w' = history w @ hs \<and> db w' = last (db w # hs)))"

section \<open>Example inputs\<close>

definition row_a :: row where
  "row_a = [''S. No.'' \<mapsto> ''1'', ''Product Name'' \<mapsto> ''SKU1'',
            ''Input Image Urls'' \<mapsto> ''https://a/1.jpg, https://a/2.jpg'']"

definition row_b :: row where
  "row_b = [''S. No.'' \<mapsto> ''2'', ''Product Name'' \<mapsto> ''SKU2'',
            ''Input Image Urls'' \<mapsto> ''https://b/1.jpg'']"

definition row_http :: row where
  "row_http = [''S. No.'' \<mapsto> ''3'', ''Product Name'' \<mapsto> ''SKU3'',
            ''Input Image Urls'' \<mapsto> ''https://c/1.jpg,http://c/2.jpg'']"

definition row_twice :: row where
  "row_twice = [''S. No.'' \<mapsto> ''4'', ''Product Name'' \<mapsto> ''SKU4'',
            ''Input Image Urls'' \<mapsto> ''https://d/1.jpg,https://d/1.jpg'']"

definition tables0 :: tables where
  "tables0 = \<lparr>requests = [], products = [], images = [], request_seq = 1, product_seq = 1\<rparr>"

text \<open>An empty store, one uploaded file, an environment in which no call fails and the clock ticks.\<close>

definition world0 :: world where
  "world0 = \<lparr>db = tables0, txn = None, history = [], files = [''uploads/a'' \<mapsto> ''csv''],
     events = [], calls = 0, fault = (\<lambda>n. None), clock_reads = 0,
     now = (\<lambda>k. 1700000000000 + k), webhook_env = None\<rparr>"

text \<open>Two jobs; the first has the same URL under two of its products, the second has it too.\<close>

definition tables_dup :: tables where
  "tables_dup =
     \<lparr>requests = [\<lparr>req_id = 1, req_status = ''processing''\<rparr>, \<lparr>req_id = 2, req_status = ''processing''\<rparr>],
      products =
        [\<lparr>prod_id = 1, request_id = 1, serial_number = Some ''1'', product_name = Some ''SKU1''\<rparr>,
         \<lparr>prod_id = 2, request_id = 1, serial_number = Some ''2'', product_name = Some ''SKU2''\<rparr>,
         \<lparr>prod_id = 3, request_id = 2, serial_number = Some ''1'', product_name = Some ''SKU1''\<rparr>],
      images =
        [\<lparr>product_id = 1, input_url = ''https://a/1.jpg'', processing_status = ''pending'', output_url = None\<rparr>,
         \<lparr>product_id = 2, input_url = ''https://a/1.jpg'', processing_status = ''pending'', output_url = None\<rparr>,
         \<lparr>product_id = 2, input_url = ''https://a/2.jpg'', processing_status = ''pending'', output_url = None\<rparr>,
         \<lparr>product_id = 3, input_url = ''https://a/1.jpg'', processing_status = ''pending'', output_url = None\<rparr>],
      request_seq = 3, product_seq = 4\<rparr>"

text \<open>A job in processing, with the two rows \<open>row_a\<close> and \<open>row_b\<close>; the first call of the run fails.\<close>

definition tables_c :: tables where
  "tables_c =
     \<lparr>requests = [\<lparr>req_id = 1, req_status = ''processing''\<rparr>],
      products =
        [\<lparr>prod_id = 1, request_id = 1, serial_number = Some ''1'', product_name = Some ''SKU1''\<rparr>,
         \<lparr>prod_id = 2, request_id = 1, serial_number = Some ''2'', product_name = Some ''SKU2''\<rparr>],
      images =
        [\<lparr>product_id = 1, input_url = ''https://a/1.jpg'', processing_status = ''pending'', output_url = None\<rparr>,
         \<lparr>product_id = 1, input_url = ''https://a/2.jpg'', processing_status = ''pending'', output_url = None\<rparr>,
         \<lparr>product_id = 2, input_url = ''https://b/1.jpg'', processing_status = ''pending'', output_url = None\<rparr>],
      request_seq = 2, product_seq = 3\<rparr>"

definition world_c :: world where
  "world_c = world0\<lparr>db := tables_c, files := Map.empty,
     fault := (\<lambda>n. if n = 0 then Some ''timeout of 1000ms exceeded'' else None)\<rparr>"





text \<open>
  The example world when the pool refuses the first connection, and when the insertion of the
  product (the seventh call) fails.
\<close>

definition world_db_down :: world where
  "world_db_down = world0\<lparr>fault := (\<lambda>n. if n = 0 then Some ''connect ECONNREFUSED 127.0.0.1:5432'' else None)\<rparr>"

definition world_insert_fails :: world where
  "world_insert_fails = world0\<lparr>fault := (\<lambda>n. if n = 6 then Some ''value too long for type character varying(255)'' else None)\<rparr>"

text \<open>
  One upload of a file with the row \<open>row_b\<close>, run to the end of its processing: in the example
  world, and when the write of the report (the seventeenth call) fails.
\<close>

definition world_done :: world where
  "world_done =
     upload_and_process (\<lambda>c. Inr [row_b]) (\<lambda>rows. Inr ''report'') (Some ''uploads/a'') world0"

definition world_full_disk :: world where
  "world_full_disk =
     upload_and_process (\<lambda>c. Inr [row_b]) (\<lambda>rows. Inr ''report'') (Some ''uploads/a'')
       (world0\<lparr>fault := (\<lambda>n. if n = 16 then Some ''ENOSPC: no space left on device'' else None)\<rparr>)"

text \<open>
  One upload of a file with the row \<open>row_twice\<close>, whose two URLs are the same, run to the end
  of its processing, when the second fetch (the eighteenth call) fails.
\<close>

definition world_second_fails :: world where
  "world_second_fails =
     upload_and_process (\<lambda>c. Inr [row_twice]) (\<lambda>rows. Inr ''report'') (Some ''uploads/a'')
       (world0\<lparr>fault := (\<lambda>n. if n = 17 then Some ''Request failed with status code 503'' else None)\<rparr>)"


section \<open>Running the model\<close>

text \<open>The equations that evaluate a run on a concrete world.\<close>

lemmas run_defs =
  upload_and_process_def uploadDoc_def validateCSV_def on_end_def row_isValid_def
  trim_def is_space_def startsWith_def createRequest_def storeProductData_def
  updateRequestStatus_def updateImageStatus_def compressImage_def generateOutputCsv_def
  sendWebhookNotification_def processImages_def await_def try_catch_def try_finally_def
  ret_def throw_def emit_def outcall_def date_now_def set_db_def pool_connect_def query_def
  release_def rows0_id_def unlinkSync_def writeFile_def axios_get_def axios_post_def
  sharp_jpeg_def respond_def url_list_def webhookUrl_def products_of_def
  show_nat.simps digit_def

section \<open>Validation\<close>

lemma startsWith_iff: "startsWith s p \<longleftrightarrow> (\<exists>rest. s = p @ rest)"
  unfolding startsWith_def
  by (metis append_eq_conv_conj append_take_drop_id)

lemma row_isValid_spec: "row_isValid row \<longleftrightarrow> valid_row_spec row"
  unfolding row_isValid_def valid_row_spec_def
  by (cases "row ''S. No.''"; cases "row ''Product Name''"; cases "row ''Input Image Urls''")
     (auto simp: list_all_iff startsWith_iff)

lemma valid_row_a: "valid_row_spec row_a"
  unfolding row_isValid_spec [symmetric]
  by (simp add: row_isValid_def row_a_def trim_def is_space_def startsWith_def)

lemma invalid_row_http: "\<not> valid_row_spec row_http"
  unfolding row_isValid_spec [symmetric]
  by (simp add: row_isValid_def row_http_def trim_def is_space_def startsWith_def)

text \<open>
  C4. The validator accepts the empty table and yields zero rows: the \<open>'end'\<close> handler on no
  records resolves with no records, and so does validateCSV on a file that parses to none.
\<close>

theorem C4_empty_table_valid:
  "on_end [] = Inr [] \<and>
   (files w filePath = Some content \<and> parse content = Inr [] \<longrightarrow>
      validateCSV parse filePath w = (Inr [], w))"
  by (simp add: on_end_def validateCSV_def)

theorem C4_witness:
  "files world0 ''uploads/a'' = Some ''csv'' \<and>
   validateCSV (\<lambda>c. Inr []) ''uploads/a'' world0 = (Inr [], world0)"
  using C4_empty_table_valid [of world0 "''uploads/a''" "''csv''" "\<lambda>c. Inr []"]
  by (simp add: world0_def)

text \<open>
  C5. Validation is all or nothing: it succeeds exactly when every row is valid in the
  specification's sense, it then returns the rows it was given (as many as came in), and a
  single invalid row makes it fail with the one error \<open>Invalid CSV format or data\<close>. On a
  file that parses to the rows, validateCSV ends with that outcome and changes nothing.
\<close>

theorem C5_validate_all_or_nothing:
  "((\<exists>out. on_end rows = Inr out) \<longleftrightarrow> (\<forall>row \<in> set rows. valid_row_spec row)) \<and>
   (\<forall>out. on_end rows = Inr out \<longrightarrow> out = rows \<and> length out = length rows) \<and>
   ((\<exists>row \<in> set rows. \<not> valid_row_spec row) \<longrightarrow>
      on_end rows = Inl (Error ''Invalid CSV format or data'')) \<and>
   (files w filePath = Some content \<and> parse content = Inr rows \<longrightarrow>
      validateCSV parse filePath w = (on_end rows, w))"
  by (auto simp: on_end_def list_all_iff row_isValid_spec validateCSV_def)

theorem C5_witness:
  "on_end [row_a, row_http] = Inl (Error ''Invalid CSV format or data'') \<and>
   on_end [row_a] = Inr [row_a] \<and>
   files world0 ''uploads/a'' = Some ''csv'' \<and>
   validateCSV (\<lambda>c. Inr [row_a, row_http]) ''uploads/a'' world0 =
     (Inl (Error ''Invalid CSV format or data''), world0) \<and>
   validateCSV (\<lambda>c. Inr [row_a]) ''uploads/a'' world0 = (Inr [row_a], world0)"
proof -
  have f: "files world0 ''uploads/a'' = Some ''csv''" by (simp add: world0_def)
  note bad = C5_validate_all_or_nothing
    [of "[row_a, row_http]" world0 "''uploads/a''" "''csv''" "\<lambda>c. Inr [row_a, row_http]"]
  note good = C5_validate_all_or_nothing
    [of "[row_a]" world0 "''uploads/a''" "''csv''" "\<lambda>c. Inr [row_a]"]
  have b: "on_end [row_a, row_http] = Inl (Error ''Invalid CSV format or data'')"
    using bad invalid_row_http by simp
  have g: "on_end [row_a] = Inr [row_a]"
    using good valid_row_a by auto
  have vb: "validateCSV (\<lambda>c. Inr [row_a, row_http]) ''uploads/a'' world0 = (on_end [row_a, row_http], world0)"
    using bad f by blast
  have vg: "validateCSV (\<lambda>c. Inr [row_a]) ''uploads/a'' world0 = (on_end [row_a], world0)"
    using good f by blast
  show ?thesis using f b g vb vg by simp
qed

section \<open>The ingestion handler\<close>

text \<open>
  C10. A request without a file is answered 400 \<open>No file uploaded\<close> and has no other effect:
  the world after the handler is the world before it with that one response added (the store,
  the files and the counters of the calls made are unchanged), and no background processing
  is started (the handler's value is \<open>None\<close>).
\<close>

theorem C10_no_file:
  "uploadDoc parse None w =
     (Inr None, w\<lparr>events := events w @ [Respond 400 ''No file uploaded'' None]\<rparr>)"
  by (simp add: uploadDoc_def try_catch_def await_def respond_def emit_def ret_def)

section \<open>The job store\<close>

lemma updateImageStatus_ok:
  assumes "fault w (calls w) = None" "fault w (Suc (calls w)) = None"
  shows "updateImageStatus requestId inputUrl status outputUrl w =
     (Inr (), set_db (snd (exec (UPDATE_images status outputUrl requestId inputUrl) (db w)))
         (w\<lparr>calls := Suc (Suc (calls w)), txn := None\<rparr>))"
  using assms
  by (simp add: updateImageStatus_def await_def try_catch_def try_finally_def pool_connect_def
      outcall_def query_def set_db_def release_def ret_def)

lemma updateImageStatus_Inr:
  assumes "updateImageStatus requestId inputUrl status outputUrl w = (Inr u, w')"
  shows "db w' = snd (exec (UPDATE_images status outputUrl requestId inputUrl) (db w))"
  using assms
  by (auto simp: updateImageStatus_def await_def try_catch_def try_finally_def pool_connect_def
      outcall_def query_def set_db_def release_def ret_def throw_def split: option.splits)

lemma products_of_UPDATE_images:
  "products_of rid' (snd (exec (UPDATE_images st out rid url) t)) = products_of rid' t"
  by (simp add: products_of_def)

lemma images_of_UPDATE_images:
  "images_of rid' (snd (exec (UPDATE_images st out rid url) t)) =
     map (\<lambda>i. if product_id i \<in> set (products_of rid t) \<and> input_url i = url
              then i\<lparr>processing_status := st, output_url := out\<rparr> else i)
       (images_of rid' t)"
proof -
  have p: "products_of rid' (snd (exec (UPDATE_images st out rid url) t)) = products_of rid' t"
    by (rule products_of_UPDATE_images)
  show ?thesis
    unfolding images_of_def p
    by (simp add: filter_map comp_def if_distrib [of product_id] cong: if_cong)
qed

lemma images_of_UPDATE_images_hit:
  assumes "i \<in> set (images_of rid (snd (exec (UPDATE_images st out rid url) t)))"
    and "input_url i = url"
  shows "processing_status i = st \<and> output_url i = out"
proof -
  from assms(1) obtain j where j: "j \<in> set (images_of rid t)"
    and i: "i = (if product_id j \<in> set (products_of rid t) \<and> input_url j = url
                 then j\<lparr>processing_status := st, output_url := out\<rparr> else j)"
    unfolding images_of_UPDATE_images by auto
  from j have p: "product_id j \<in> set (products_of rid t)"
    by (simp add: images_of_def)
  show ?thesis
  proof (cases "input_url j = url")
    case True
    with i p show ?thesis by simp
  next
    case False
    with i have "i = j" by simp
    with False assms(2) show ?thesis by simp
  qed
qed

text \<open>
  C6. updateImageStatus finds its target by job and input URL. When the store takes the
  two calls it makes, it succeeds; and when it succeeds, one call has rewritten every image
  row that is under a product of the job and has the given input URL (all duplicates
  included), to the given status and output URL, and no other row.
\<close>

theorem C6_updateImageStatus_all_matching_rows:
  "(fault w (calls w) = None \<and> fault w (Suc (calls w)) = None \<longrightarrow>
      fst (updateImageStatus requestId inputUrl status outputUrl w) = Inr ()) \<and>
   (fst (updateImageStatus requestId inputUrl status outputUrl w) = Inr () \<longrightarrow>
      images (db (snd (updateImageStatus requestId inputUrl status outputUrl w))) =
        map (\<lambda>i. if product_id i \<in> set (products_of requestId (db w)) \<and> input_url i = inputUrl
                 then i\<lparr>processing_status := status, output_url := outputUrl\<rparr> else i)
          (images (db w)) \<and>
      (\<forall>i \<in> set (images_of requestId (db (snd (updateImageStatus requestId inputUrl status outputUrl w)))).
         input_url i = inputUrl \<longrightarrow> processing_status i = status \<and> output_url i = outputUrl))"
proof -
  obtain r w' where run: "updateImageStatus requestId inputUrl status outputUrl w = (r, w')"
    by (cases "updateImageStatus requestId inputUrl status outputUrl w")
  have ok: "r = Inr ()" if "fault w (calls w) = None \<and> fault w (Suc (calls w)) = None"
    using run that by (simp add: updateImageStatus_ok)
  have eff: "db w' = snd (exec (UPDATE_images status outputUrl requestId inputUrl) (db w))"
    if "r = Inr ()"
    using run that by (auto dest: updateImageStatus_Inr)
  have imgs: "images (db w') =
        map (\<lambda>i. if product_id i \<in> set (products_of requestId (db w)) \<and> input_url i = inputUrl
                 then i\<lparr>processing_status := status, output_url := outputUrl\<rparr> else i)
          (images (db w))" if "r = Inr ()"
    using eff [OF that] by simp
  have hit: "\<forall>i \<in> set (images_of requestId (db w')).
         input_url i = inputUrl \<longrightarrow> processing_status i = status \<and> output_url i = outputUrl"
    if "r = Inr ()"
    using eff [OF that] images_of_UPDATE_images_hit by metis
  show ?thesis
    unfolding run fst_conv snd_conv using ok imgs hit by blast
qed

theorem C6_witness:
  "fault (world0\<lparr>db := tables_dup\<rparr>) (calls (world0\<lparr>db := tables_dup\<rparr>)) = None \<and>
   fault (world0\<lparr>db := tables_dup\<rparr>) (Suc (calls (world0\<lparr>db := tables_dup\<rparr>))) = None \<and>
   images (db (snd (updateImageStatus 1 ''https://a/1.jpg'' ''completed'' (Some ''https://o/1.jpg'')
                      (world0\<lparr>db := tables_dup\<rparr>)))) =
     [\<lparr>product_id = 1, input_url = ''https://a/1.jpg'', processing_status = ''completed'', output_url = Some ''https://o/1.jpg''\<rparr>,
      \<lparr>product_id = 2, input_url = ''https://a/1.jpg'', processing_status = ''completed'', output_url = Some ''https://o/1.jpg''\<rparr>,
      \<lparr>product_id = 2, input_url = ''https://a/2.jpg'', processing_status = ''pending'', output_url = None\<rparr>,
      \<lparr>product_id = 3, input_url = ''https://a/1.jpg'', processing_status = ''pending'', output_url = None\<rparr>]"
  using C6_updateImageStatus_all_matching_rows
    [of "world0\<lparr>db := tables_dup\<rparr>" 1 "''https://a/1.jpg''" "''completed''" "Some ''https://o/1.jpg''"]
  by (simp add: world0_def tables_dup_def products_of_def)

section \<open>The image transformer\<close>

lemma digit_inj: "a < 10 \<Longrightarrow> b < 10 \<Longrightarrow> digit a = digit b \<Longrightarrow> a = b"
proof -
  assume a: "a < 10" and b: "b < 10" and e: "digit a = digit b"
  have d: "distinct ''0123456789''" by simp
  have "a < length ''0123456789''" "b < length ''0123456789''" using a b by simp_all
  with d e show "a = b" unfolding digit_def by (simp add: nth_eq_iff_index_eq)
qed

lemma show_nat_not_Nil: "show_nat n \<noteq> []"
  by (subst show_nat.simps) simp

lemma show_nat_length: "length (show_nat n) = Suc 0 \<longleftrightarrow> n < 10"
  by (subst show_nat.simps) (auto simp: show_nat_not_Nil)

lemma show_nat_inj: "show_nat n = show_nat m \<Longrightarrow> n = m"
proof (induction n arbitrary: m rule: show_nat.induct)
  case (1 n)
  show ?case
  proof (cases "n < 10")
    case True
    then have "length (show_nat m) = Suc 0"
      using "1.prems" show_nat_length by metis
    then have m: "m < 10" by (simp add: show_nat_length)
    then have "[digit n] = [digit m]"
      using "1.prems" True by (simp add: show_nat.simps)
    then show ?thesis using True m digit_inj by simp
  next
    case False
    then have "length (show_nat m) \<noteq> Suc 0"
      using "1.prems" show_nat_length by metis
    then have m: "\<not> m < 10" by (simp add: show_nat_length)
    have "show_nat (n div 10) @ [digit (n mod 10)] = show_nat (m div 10) @ [digit (m mod 10)]"
      using "1.prems" False m show_nat.simps by metis
    then have a: "show_nat (n div 10) = show_nat (m div 10)" and b: "digit (n mod 10) = digit (m mod 10)"
      by simp_all
    have "n div 10 = m div 10" using "1.IH" [OF False a] .
    moreover have "n mod 10 = m mod 10" using b digit_inj by simp
    ultimately show ?thesis by (metis div_mult_mod_eq)
  qed
qed

lemma compressImage_Inr:
  assumes "compressImage url w = (Inr out, w')"
  shows "out = ''https://compressed-image-url.com/'' @ show_nat (now w (clock_reads w)) @ ''.jpg''"
  using assms
  by (auto simp: compressImage_def await_def axios_get_def emit_def outcall_def sharp_jpeg_def
      date_now_def ret_def split: option.splits)

text \<open>
  C7, as the code has it. The output URL is made of the millisecond clock alone: two calls that
  both succeed return distinct strings exactly when the readings of \<open>Date.now()\<close> they
  take differ. The counterexample is two calls, for two URLs, that read the same value of
  the clock (calls that end within one millisecond, as those of two jobs processed at the
  same time can): both succeed and return the same string.
\<close>

theorem C7_outputs_distinct_iff_clock_differs:
  assumes "compressImage url1 w1 = (Inr out1, w1')"
    and "compressImage url2 w2 = (Inr out2, w2')"
  shows "out1 \<noteq> out2 \<longleftrightarrow> now w1 (clock_reads w1) \<noteq> now w2 (clock_reads w2)"
  using compressImage_Inr [OF assms(1)] compressImage_Inr [OF assms(2)]
  by (auto dest: show_nat_inj)

theorem C7_witness:
  "compressImage ''https://a/1.jpg'' world0 =
     (Inr ''https://compressed-image-url.com/1700000000000.jpg'',
      world0\<lparr>events := [Get ''https://a/1.jpg''], calls := 2, clock_reads := 1\<rparr>) \<and>
   compressImage ''https://a/2.jpg'' (world0\<lparr>events := [Get ''https://a/1.jpg''], calls := 2, clock_reads := 1\<rparr>) =
     (Inr ''https://compressed-image-url.com/1700000000001.jpg'',
      world0\<lparr>events := [Get ''https://a/1.jpg'', Get ''https://a/2.jpg''], calls := 4, clock_reads := 2\<rparr>) \<and>
   ''https://compressed-image-url.com/1700000000000.jpg'' \<noteq> ''https://compressed-image-url.com/1700000000001.jpg''"
proof -
  have a: "compressImage ''https://a/1.jpg'' world0 =
     (Inr ''https://compressed-image-url.com/1700000000000.jpg'',
      world0\<lparr>events := [Get ''https://a/1.jpg''], calls := 2, clock_reads := 1\<rparr>)"
    by (simp add: compressImage_def await_def axios_get_def emit_def outcall_def sharp_jpeg_def
      date_now_def ret_def world0_def show_nat.simps digit_def)
  have b: "compressImage ''https://a/2.jpg'' (world0\<lparr>events := [Get ''https://a/1.jpg''], calls := 2, clock_reads := 1\<rparr>) =
     (Inr ''https://compressed-image-url.com/1700000000001.jpg'',
      world0\<lparr>events := [Get ''https://a/1.jpg'', Get ''https://a/2.jpg''], calls := 4, clock_reads := 2\<rparr>)"
    by (simp add: compressImage_def await_def axios_get_def emit_def outcall_def sharp_jpeg_def
      date_now_def ret_def world0_def show_nat.simps digit_def)
  have c: "now world0 (clock_reads world0) \<noteq>
     now (world0\<lparr>events := [Get ''https://a/1.jpg''], calls := 2, clock_reads := 1\<rparr>)
       (clock_reads (world0\<lparr>events := [Get ''https://a/1.jpg''], calls := 2, clock_reads := 1\<rparr>))"
    by (simp add: world0_def)
  show ?thesis
    using C7_outputs_distinct_iff_clock_differs [OF a b] a b c by blast
qed

theorem C7_counterexample:
  "fst (compressImage ''https://a/1.jpg'' (world0\<lparr>now := (\<lambda>k. 1700000000000)\<rparr>)) =
      Inr ''https://compressed-image-url.com/1700000000000.jpg'' \<and>
   fst (compressImage ''https://a/2.jpg''
          (snd (compressImage ''https://a/1.jpg'' (world0\<lparr>now := (\<lambda>k. 1700000000000)\<rparr>)))) =
      Inr ''https://compressed-image-url.com/1700000000000.jpg''"
  by (simp add: compressImage_def await_def axios_get_def emit_def outcall_def sharp_jpeg_def
      date_now_def ret_def world0_def show_nat.simps digit_def)

section \<open>Effects outside the store\<close>

lemma quietD:
  "quiet m \<Longrightarrow> m w = (r, w') \<Longrightarrow>
     files w' = files w \<and> events w' = events w \<and> clock_reads w' = clock_reads w \<and> (\<forall>c. r \<noteq> Inl (Crash c))"
  unfolding quiet_def by blast

lemma quiet_ret: "quiet (ret x)"
  by (simp add: quiet_def ret_def)

lemma quiet_throw: "quiet (throw (Error m))"
  by (simp add: quiet_def throw_def)

lemma quiet_await: "quiet m \<Longrightarrow> (\<And>x. quiet (k x)) \<Longrightarrow> quiet (await m k)"
  unfolding quiet_def await_def
  by (auto split: prod.splits sum.splits) (metis+)?

lemma quiet_try_catch: "quiet m \<Longrightarrow> (\<And>msg. quiet (h (Error msg))) \<Longrightarrow> quiet (try_catch m h)"
  unfolding quiet_def try_catch_def
  by (auto split: prod.splits sum.splits error.splits) (metis+)?

lemma quiet_try_finally: "quiet m \<Longrightarrow> quiet f \<Longrightarrow> quiet (try_finally m f)"
  unfolding quiet_def try_finally_def
  by (auto split: prod.splits sum.splits error.splits) (metis+)?

lemma quiet_outcall: "quiet outcall"
  by (auto simp: quiet_def outcall_def split: option.splits)

lemma quiet_pool_connect: "quiet pool_connect"
  by (auto simp: quiet_def pool_connect_def await_def outcall_def split: option.splits)

lemma quiet_query: "quiet (query s)"
  by (auto simp: quiet_def query_def await_def outcall_def set_db_def split: option.splits stmt.splits prod.splits)

lemma quiet_release: "quiet release"
  by (simp add: quiet_def release_def)

lemma quiet_rows0_id: "quiet (rows0_id rows)"
  by (cases rows) (simp_all add: rows0_id_def quiet_ret quiet_throw)

lemma quiet_url_list: "quiet (url_list s)"
  by (cases s) (simp_all add: url_list_def quiet_ret quiet_throw)

lemmas quiet_intros = quiet_ret quiet_throw quiet_await quiet_try_catch quiet_try_finally
  quiet_pool_connect quiet_query quiet_release quiet_rows0_id quiet_url_list

lemma quiet_createRequest: "quiet createRequest"
  unfolding createRequest_def by (intro quiet_intros)




lemma quiet_updateRequestStatus: "quiet (updateRequestStatus requestId status)"
  unfolding updateRequestStatus_def by (intro quiet_intros)

lemma quiet_updateImageStatus: "quiet (updateImageStatus requestId inputUrl status outputUrl)"
  unfolding updateImageStatus_def by (intro quiet_intros)







section \<open>Fail-fast processing\<close>

lemma await_Inr: "m w = (Inr x, w1) \<Longrightarrow> await m k w = k x w1"
  by (simp add: await_def)

lemma await_Inl: "m w = (Inl e, w1) \<Longrightarrow> await m k w = (Inl e, w1)"
  by (simp add: await_def)

lemma await_assoc: "await (await m k) h = await m (\<lambda>x. await (k x) h)"
  by (rule ext) (simp add: await_def split: prod.splits sum.splits)

lemma await_ret: "await (ret x) k = k x"
  by (rule ext) (simp add: await_def ret_def)

lemma process_urls_append:
  "process_urls requestId (us @ vs) outputUrls =
     await (process_urls requestId us outputUrls) (\<lambda>outs. process_urls requestId vs outs)"
  by (induction us arbitrary: outputUrls) (simp_all add: await_ret await_assoc)

lemma process_rows_append:
  "process_rows requestId (pre @ post) processedData =
     await (process_rows requestId pre processedData) (\<lambda>pd. process_rows requestId post pd)"
  by (induction pre arbitrary: processedData) (simp_all add: await_ret await_assoc)

lemma compressImage_Inl:
  assumes "compressImage url w = (Inl e, w')"
  shows "(\<exists>msg. e = Error msg) \<and> db w' = db w \<and> history w' = history w \<and> files w' = files w \<and>
         events w' = events w @ [Get url]"
  using assms
  by (auto simp: compressImage_def await_def axios_get_def emit_def outcall_def sharp_jpeg_def
      date_now_def ret_def split: option.splits)

lemma updateRequestStatus_ok:
  assumes "fault w (calls w) = None" "fault w (Suc (calls w)) = None"
  shows "updateRequestStatus requestId status w =
     (Inr (), set_db (snd (exec (UPDATE_request status requestId) (db w)))
         (w\<lparr>calls := Suc (Suc (calls w)), txn := None\<rparr>))"
  using assms
  by (simp add: updateRequestStatus_def await_def try_catch_def try_finally_def pool_connect_def
      outcall_def query_def set_db_def release_def ret_def)

lemma updateRequestStatus_cases:
  assumes "updateRequestStatus requestId status w = (r, w')"
  shows "(r = Inr () \<and> db w' = snd (exec (UPDATE_request status requestId) (db w)) \<and>
            history w' = history w @ [db w']) \<or>
         ((\<exists>msg. r = Inl (Error msg)) \<and> db w' = db w \<and> history w' = history w)"
  using assms
  by (auto simp: updateRequestStatus_def await_def try_catch_def try_finally_def pool_connect_def
      outcall_def query_def set_db_def release_def ret_def throw_def split: option.splits)

lemma updateImageStatus_cases:
  assumes "updateImageStatus requestId inputUrl status outputUrl w = (r, w')"
  shows "(r = Inr () \<and> db w' = snd (exec (UPDATE_images status outputUrl requestId inputUrl) (db w)) \<and>
            history w' = history w @ [db w']) \<or>
         ((\<exists>msg. r = Inl (Error msg)) \<and> db w' = db w \<and> history w' = history w)"
  using assms
  by (auto simp: updateImageStatus_def await_def try_catch_def try_finally_def pool_connect_def
      outcall_def query_def set_db_def release_def ret_def throw_def split: option.splits)

lemma updateRequestStatus_images:
  assumes "updateRequestStatus requestId status w = (r, w')"
  shows "images (db w') = images (db w) \<and> products (db w') = products (db w)"
  using updateRequestStatus_cases [OF assms] by auto

lemma processImages_fail_fast:
  assumes pre: "process_rows requestId pre [] w = (Inr processedData, w1)"
    and urls: "row ''Input Image Urls'' = Some inputUrls"
      "map trim (split CHR '','' inputUrls) = us @ url # rest"
    and before: "process_urls requestId us [] w1 = (Inr outputUrls, w2)"
    and fails: "compressImage url w2 = (Inl e, w3)"
  shows "processImages stringify requestId (pre @ row # post) w =
           updateRequestStatus requestId ''failed'' w3"
proof -
  from compressImage_Inl [OF fails] obtain msg where e: "e = Error msg" by blast
  have "process_urls requestId (us @ url # rest) [] w1 = (Inl e, w3)"
    unfolding process_urls_append
    using before fails by (simp add: await_def)
  then have "process_rows requestId (row # post) processedData w1 = (Inl e, w3)"
    using urls by (simp add: url_list_def await_ret await_def)
  then have "process_rows requestId (pre @ row # post) [] w = (Inl e, w3)"
    unfolding process_rows_append using pre by (simp add: await_def)
  then show ?thesis
    unfolding processImages_def by (simp add: try_catch_def await_def e)
qed

text \<open>
  C1. When the rows before \<open>row\<close> and the URLs of \<open>row\<close> before \<open>url\<close> were processed and the
  transformation of \<open>url\<close> fails, all that processImages still does is the status write
  \<open>failed\<close> for the job, from the world the failed transformation left: the request for \<open>url\<close>
  is the last one made (the URLs \<open>rest\<close> and the rows \<open>post\<close> are never attempted), no image row
  is touched any more, and when the store takes the write, every row of the job in
  \<open>requests\<close> is \<open>failed\<close>.
\<close>

theorem C1_fail_fast:
  assumes "process_rows requestId pre [] w = (Inr processedData, w1)"
    and "row ''Input Image Urls'' = Some inputUrls"
    and "map trim (split CHR '','' inputUrls) = us @ url # rest"
    and "process_urls requestId us [] w1 = (Inr outputUrls, w2)"
    and "compressImage url w2 = (Inl e, w3)"
  shows "processImages stringify requestId (pre @ row # post) w =
           updateRequestStatus requestId ''failed'' w3 \<and>
         events (snd (processImages stringify requestId (pre @ row # post) w)) = events w2 @ [Get url] \<and>
         images (db (snd (processImages stringify requestId (pre @ row # post) w))) = images (db w2) \<and>
         (fault w3 (calls w3) = None \<and> fault w3 (Suc (calls w3)) = None \<longrightarrow>
            fst (processImages stringify requestId (pre @ row # post) w) = Inr () \<and>
            requests (db (snd (processImages stringify requestId (pre @ row # post) w))) =
              map (\<lambda>r. if req_id r = requestId then r\<lparr>req_status := ''failed''\<rparr> else r)
                (requests (db w2)))"
proof -
  let ?run = "processImages stringify requestId (pre @ row # post) w"
  have run: "?run = updateRequestStatus requestId ''failed'' w3"
    using assms by (rule processImages_fail_fast)
  obtain r w' where u: "updateRequestStatus requestId ''failed'' w3 = (r, w')"
    by (cases "updateRequestStatus requestId ''failed'' w3")
  have w3: "db w3 = db w2" "events w3 = events w2 @ [Get url]"
    using compressImage_Inl [OF assms(5)] by simp_all
  have ev: "events w' = events w2 @ [Get url]"
    using quietD [OF quiet_updateRequestStatus u] w3 by simp
  have im: "images (db w') = images (db w2)"
    using updateRequestStatus_images [OF u] w3 by simp
  have st: "r = Inr () \<and> requests (db w') =
              map (\<lambda>r. if req_id r = requestId then r\<lparr>req_status := ''failed''\<rparr> else r)
                (requests (db w2))"
    if "fault w3 (calls w3) = None \<and> fault w3 (Suc (calls w3)) = None"
    using u that w3 by (auto simp: updateRequestStatus_ok set_db_def)
  show ?thesis
    unfolding run u fst_conv snd_conv using ev im st by blast
qed

theorem C1_witness:
  "process_rows 1 [] [] world_c = (Inr [], world_c) \<and>
   row_a ''Input Image Urls'' = Some ''https://a/1.jpg, https://a/2.jpg'' \<and>
   map trim (split CHR '','' ''https://a/1.jpg, https://a/2.jpg'') = [] @ ''https://a/1.jpg'' # [''https://a/2.jpg''] \<and>
   process_urls 1 [] [] world_c = (Inr [], world_c) \<and>
   compressImage ''https://a/1.jpg'' world_c =
     (Inl (Error ''timeout of 1000ms exceeded''), world_c\<lparr>events := [Get ''https://a/1.jpg''], calls := 1\<rparr>) \<and>
   fst (processImages (\<lambda>rows. Inr ''report'') 1 ([] @ row_a # [row_b]) world_c) = Inr () \<and>
   events (snd (processImages (\<lambda>rows. Inr ''report'') 1 ([] @ row_a # [row_b]) world_c)) = [Get ''https://a/1.jpg''] \<and>
   images (db (snd (processImages (\<lambda>rows. Inr ''report'') 1 ([] @ row_a # [row_b]) world_c))) = images tables_c \<and>
   requests (db (snd (processImages (\<lambda>rows. Inr ''report'') 1 ([] @ row_a # [row_b]) world_c))) =
     [\<lparr>req_id = 1, req_status = ''failed''\<rparr>]"
proof -
  have a: "process_rows 1 [] [] world_c = (Inr [], world_c)"
    by (simp add: ret_def)
  have b: "row_a ''Input Image Urls'' = Some ''https://a/1.jpg, https://a/2.jpg''"
    by (simp add: row_a_def)
  have c: "map trim (split CHR '','' ''https://a/1.jpg, https://a/2.jpg'') = [] @ ''https://a/1.jpg'' # [''https://a/2.jpg'']"
    by (simp add: trim_def is_space_def)
  have d: "process_urls 1 [] [] world_c = (Inr [], world_c)"
    by (simp add: ret_def)
  have e: "compressImage ''https://a/1.jpg'' world_c =
     (Inl (Error ''timeout of 1000ms exceeded''), world_c\<lparr>events := [Get ''https://a/1.jpg''], calls := 1\<rparr>)"
    by (simp add: compressImage_def await_def axios_get_def emit_def outcall_def world_c_def world0_def)
  have f: "fault (world_c\<lparr>events := [Get ''https://a/1.jpg''], calls := 1\<rparr>)
             (calls (world_c\<lparr>events := [Get ''https://a/1.jpg''], calls := 1\<rparr>)) = None \<and>
           fault (world_c\<lparr>events := [Get ''https://a/1.jpg''], calls := 1\<rparr>)
             (Suc (calls (world_c\<lparr>events := [Get ''https://a/1.jpg''], calls := 1\<rparr>))) = None"
    by (simp add: world_c_def)
  have g: "events world_c = []" "db world_c = tables_c"
    by (simp_all add: world_c_def world0_def)
  have h: "map (\<lambda>r. if req_id r = 1 then r\<lparr>req_status := ''failed''\<rparr> else r) (requests tables_c) =
     [\<lparr>req_id = 1, req_status = ''failed''\<rparr>]"
    by (simp add: tables_c_def)
  note T = C1_fail_fast [where requestId = 1 and pre = "[]" and w = world_c and processedData = "[]"
        and ?w1.0 = world_c and row = row_a and inputUrls = "''https://a/1.jpg, https://a/2.jpg''"
        and us = "[]" and url = "''https://a/1.jpg''" and rest = "[''https://a/2.jpg'']"
        and outputUrls = "[]" and ?w2.0 = world_c and e = "Error ''timeout of 1000ms exceeded''"
        and ?w3.0 = "world_c\<lparr>events := [Get ''https://a/1.jpg''], calls := 1\<rparr>"
        and stringify = "\<lambda>rows. Inr ''report''" and post = "[row_b]", OF a b c d e]
  have ev: "events (snd (processImages (\<lambda>rows. Inr ''report'') 1 ([] @ row_a # [row_b]) world_c)) = [Get ''https://a/1.jpg'']"
    using T [THEN conjunct2, THEN conjunct1] g by simp
  have im: "images (db (snd (processImages (\<lambda>rows. Inr ''report'') 1 ([] @ row_a # [row_b]) world_c))) = images tables_c"
    using T [THEN conjunct2, THEN conjunct2, THEN conjunct1] g by simp
  have st: "fst (processImages (\<lambda>rows. Inr ''report'') 1 ([] @ row_a # [row_b]) world_c) = Inr () \<and>
     requests (db (snd (processImages (\<lambda>rows. Inr ''report'') 1 ([] @ row_a # [row_b]) world_c))) =
     [\<lparr>req_id = 1, req_status = ''failed''\<rparr>]"
    using T [THEN conjunct2, THEN conjunct2, THEN conjunct2, THEN mp, OF f] g h by simp
  show ?thesis
    using a b c d e ev im st by blast
qed

section \<open>Transactions of the store\<close>

lemma adds_items_refl: "adds_items rid U t t"
  by (simp add: adds_items_def)

lemma adds_items_product:
  assumes "adds_items rid U t0 t"
  shows "adds_items rid U t0 (snd (exec (INSERT_product rid sn pn) t))"
proof -
  from assms obtain ps "is" where
    a: "requests t = requests t0" "request_seq t = request_seq t0" "product_seq t0 \<le> product_seq t"
      "products t = products t0 @ ps" "images t = images t0 @ is"
      "\<forall>p \<in> set ps. request_id p = rid \<and> product_seq t0 \<le> prod_id p \<and> prod_id p < product_seq t"
      "\<forall>i \<in> set is. product_seq t0 \<le> product_id i \<and> product_id i < product_seq t \<and>
            input_url i \<in> U \<and> processing_status i = ''pending'' \<and> output_url i = None"
    unfolding adds_items_def by blast
  show ?thesis
    unfolding adds_items_def using a by (auto simp: less_Suc_eq)
qed

lemma adds_items_image:
  assumes "adds_items rid U t0 t" "product_seq t0 \<le> pid" "pid < product_seq t" "u \<in> U"
  shows "adds_items rid U t0 (snd (exec (INSERT_image pid u ''pending'') t))"
proof -
  from assms(1) obtain ps "is" where
    a: "requests t = requests t0" "request_seq t = request_seq t0" "product_seq t0 \<le> product_seq t"
      "products t = products t0 @ ps" "images t = images t0 @ is"
      "\<forall>p \<in> set ps. request_id p = rid \<and> product_seq t0 \<le> prod_id p \<and> prod_id p < product_seq t"
      "\<forall>i \<in> set is. product_seq t0 \<le> product_id i \<and> product_id i < product_seq t \<and>
            input_url i \<in> U \<and> processing_status i = ''pending'' \<and> output_url i = None"
    unfolding adds_items_def by blast
  show ?thesis
    unfolding adds_items_def using a assms(2-4) by auto
qed

lemma query_in_txn:
  assumes "txn w = Some t" "s \<noteq> BEGIN" "s \<noteq> COMMIT" "s \<noteq> ROLLBACK"
    and "query s w = (r, w')"
  shows "db w' = db w \<and> history w' = history w \<and>
         ((r = Inr (fst (exec s t)) \<and> txn w' = Some (snd (exec s t))) \<or>
          ((\<exists>msg. r = Inl (Error msg)) \<and> txn w' = Some t))"
  using assms
  by (cases s) (auto simp: query_def await_def outcall_def split: option.splits prod.splits)

lemma insert_images_in_txn:
  assumes "txn w = Some t" "adds_items rid U t0 t" "product_seq t0 \<le> pid" "pid < product_seq t"
    and "set urls \<subseteq> U" and "insert_images pid urls w = (r, w')"
  shows "db w' = db w \<and> history w' = history w \<and> (\<forall>c. r \<noteq> Inl (Crash c)) \<and>
         (\<exists>t'. txn w' = Some t' \<and> adds_items rid U t0 t' \<and> product_seq t' = product_seq t)"
  using assms
proof (induction urls arbitrary: w t)
  case Nil
  then show ?case by (auto simp: ret_def)
next
  case (Cons url urls)
  obtain r1 w1 where q: "query (INSERT_image pid url ''pending'') w = (r1, w1)"
    by (cases "query (INSERT_image pid url ''pending'') w")
  from query_in_txn [OF Cons.prems(1) _ _ _ q]
  have f: "db w1 = db w" "history w1 = history w"
    and c: "(r1 = Inr (fst (exec (INSERT_image pid url ''pending'') t)) \<and>
             txn w1 = Some (snd (exec (INSERT_image pid url ''pending'') t))) \<or>
            ((\<exists>msg. r1 = Inl (Error msg)) \<and> txn w1 = Some t)"
    by simp_all
  from c show ?case
  proof
    assume ok: "r1 = Inr (fst (exec (INSERT_image pid url ''pending'') t)) \<and>
             txn w1 = Some (snd (exec (INSERT_image pid url ''pending'') t))"
    let ?t1 = "snd (exec (INSERT_image pid url ''pending'') t)"
    have a1: "adds_items rid U t0 ?t1"
      using adds_items_image [OF Cons.prems(2,3,4)] Cons.prems(5) by simp
    have p1: "pid < product_seq ?t1" using Cons.prems(4) by simp
    have rest: "insert_images pid urls w1 = (r, w')"
      using Cons.prems(6) q ok by (simp add: await_def)
    have u: "set urls \<subseteq> U" using Cons.prems(5) by simp
    from Cons.IH [OF _ a1 Cons.prems(3) p1 u rest] ok f
    show ?thesis by simp
  next
    assume err: "(\<exists>msg. r1 = Inl (Error msg)) \<and> txn w1 = Some t"
    then obtain msg where m: "r1 = Inl (Error msg)" by blast
    then have "r = Inl (Error msg)" "w' = w1"
      using Cons.prems(6) q by (auto simp: await_def)
    with err f Cons.prems(2) show ?thesis by auto
  qed
qed

lemma row_urls_subset: "set (row_urls row) \<subseteq> set (all_urls (row # data))"
  by (simp add: all_urls_def)

lemma all_urls_Cons_subset: "set (all_urls data) \<subseteq> set (all_urls (row # data))"
  by (simp add: all_urls_def)

lemma adds_items_product_seq: "adds_items rid U t0 t \<Longrightarrow> product_seq t0 \<le> product_seq t"
  by (simp add: adds_items_def)

lemma store_rows_in_txn:
  assumes "txn w = Some t" "adds_items rid U t0 t" "set (all_urls data) \<subseteq> U"
    and "store_rows rid data w = (r, w')"
  shows "db w' = db w \<and> history w' = history w \<and> (\<forall>c. r \<noteq> Inl (Crash c)) \<and>
         (\<exists>t'. txn w' = Some t' \<and> adds_items rid U t0 t')"
  using assms
proof (induction data arbitrary: w t)
  case Nil
  then show ?case by (auto simp: ret_def)
next
  case (Cons row data)
  let ?ins = "INSERT_product rid (row ''S. No.'') (row ''Product Name'')"
  obtain r1 w1 where q: "query ?ins w = (r1, w1)" by (cases "query ?ins w")
  from query_in_txn [OF Cons.prems(1) _ _ _ q]
  have f1: "db w1 = db w" "history w1 = history w"
    and c1: "(r1 = Inr (fst (exec ?ins t)) \<and> txn w1 = Some (snd (exec ?ins t))) \<or>
            ((\<exists>msg. r1 = Inl (Error msg)) \<and> txn w1 = Some t)"
    by simp_all
  from c1 show ?case
  proof
    assume "(\<exists>msg. r1 = Inl (Error msg)) \<and> txn w1 = Some t"
    then obtain msg where m: "r1 = Inl (Error msg)" and t: "txn w1 = Some t" by blast
    then have "r = Inl (Error msg)" "w' = w1"
      using Cons.prems(4) q by (auto simp: await_def)
    with t f1 Cons.prems(2) show ?thesis by auto
  next
    assume ok: "r1 = Inr (fst (exec ?ins t)) \<and> txn w1 = Some (snd (exec ?ins t))"
    let ?t1 = "snd (exec ?ins t)"
    let ?pid = "product_seq t"
    have a1: "adds_items rid U t0 ?t1" using Cons.prems(2) by (rule adds_items_product)
    have p0: "product_seq t0 \<le> ?pid" using Cons.prems(2) by (rule adds_items_product_seq)
    have p1: "?pid < product_seq ?t1" by simp
    have r1: "r1 = Inr [?pid]" using ok by simp
    show ?thesis
    proof (cases "row ''Input Image Urls''")
      case None
      then have "r = Inl (Error ''Cannot read properties of undefined'')" "w' = w1"
        using Cons.prems(4) q r1 by (auto simp: await_def rows0_id_def ret_def url_list_def throw_def)
      with ok f1 a1 show ?thesis by auto
    next
      case (Some s)
      let ?urls = "map trim (split CHR '','' s)"
      have u: "set ?urls \<subseteq> U"
        using row_urls_subset [of row data] Cons.prems(3) Some by (simp add: row_urls_def)
      obtain r3 w3 where i: "insert_images ?pid ?urls w1 = (r3, w3)"
        by (cases "insert_images ?pid ?urls w1")
      from insert_images_in_txn [OF _ a1 p0 p1 u i] ok
      obtain t3 where f3: "db w3 = db w1" "history w3 = history w1" "\<forall>c. r3 \<noteq> Inl (Crash c)"
        and t3: "txn w3 = Some t3" "adds_items rid U t0 t3"
        by auto
      show ?thesis
      proof (cases r3)
        case (Inl e)
        then have "r = Inl e" "w' = w3"
          using Cons.prems(4) q r1 Some i
          by (auto simp: await_def rows0_id_def ret_def url_list_def)
        with Inl f3 t3 f1 show ?thesis by auto
      next
        case (Inr x)
        then have rest: "store_rows rid data w3 = (r, w')"
          using Cons.prems(4) q r1 Some i
          by (auto simp: await_def rows0_id_def ret_def url_list_def)
        have d: "set (all_urls data) \<subseteq> U"
          using all_urls_Cons_subset [of data row] Cons.prems(3) by blast
        from Cons.IH [OF t3 d rest] f3 f1 show ?thesis by simp
      qed
    qed
  qed
qed

lemma query_BEGIN_cases:
  assumes "query BEGIN w = (r, w')"
  shows "db w' = db w \<and> history w' = history w \<and>
         ((r = Inr [] \<and> txn w' = Some (db w)) \<or> (\<exists>msg. r = Inl (Error msg)))"
  using assms by (auto simp: query_def await_def outcall_def split: option.splits)

lemma query_COMMIT_cases:
  assumes "txn w = Some t" "query COMMIT w = (r, w')"
  shows "(r = Inr [] \<and> db w' = t \<and> history w' = history w @ [t]) \<or>
         ((\<exists>msg. r = Inl (Error msg)) \<and> db w' = db w \<and> history w' = history w)"
  using assms by (auto simp: query_def await_def outcall_def set_db_def split: option.splits)

lemma rollback_rethrow:
  assumes "await (query ROLLBACK) (\<lambda>u. throw (Error msg)) w = (r, w')"
  shows "(\<exists>msg'. r = Inl (Error msg')) \<and> db w' = db w \<and> history w' = history w"
  using assms by (auto simp: query_def await_def outcall_def throw_def split: option.splits)

lemma store_protected:
  assumes "try_catch
          (await (query BEGIN) (\<lambda>u.
           await (store_rows rid data) (\<lambda>u.
           await (query COMMIT) (\<lambda>u.
           ret ()))))
          (\<lambda>e. await (query ROLLBACK) (\<lambda>u. throw e)) w = (r, w')"
  shows "(r = Inr () \<and> adds_items rid (set (all_urls data)) (db w) (db w') \<and>
            history w' = history w @ [db w']) \<or>
         ((\<exists>msg. r = Inl (Error msg)) \<and> db w' = db w \<and> history w' = history w)"
proof -
  let ?body = "await (query BEGIN) (\<lambda>u.
           await (store_rows rid data) (\<lambda>u.
           await (query COMMIT) (\<lambda>u.
           ret ())))"
  obtain rb wb where b: "?body w = (rb, wb)" by (cases "?body w")
  have body: "(rb = Inr () \<and> adds_items rid (set (all_urls data)) (db w) (db wb) \<and>
            history wb = history w @ [db wb]) \<or>
         ((\<exists>msg. rb = Inl (Error msg)) \<and> db wb = db w \<and> history wb = history w)"
  proof -
    obtain r1 w1 where q: "query BEGIN w = (r1, w1)" by (cases "query BEGIN w")
    from query_BEGIN_cases [OF q]
    have f1: "db w1 = db w" "history w1 = history w"
      and c1: "(r1 = Inr [] \<and> txn w1 = Some (db w)) \<or> (\<exists>msg. r1 = Inl (Error msg))"
      by simp_all
    from c1 show ?thesis
    proof
      assume "\<exists>msg. r1 = Inl (Error msg)"
      then obtain msg where "r1 = Inl (Error msg)" by blast
      then have "rb = Inl (Error msg)" "wb = w1" using b q by (auto simp: await_def)
      with f1 show ?thesis by auto
    next
      assume ok: "r1 = Inr [] \<and> txn w1 = Some (db w)"
      obtain r2 w2 where s: "store_rows rid data w1 = (r2, w2)" by (cases "store_rows rid data w1")
      from store_rows_in_txn [OF _ adds_items_refl subset_refl s] ok
      obtain t' where f2: "db w2 = db w1" "history w2 = history w1" "\<forall>c. r2 \<noteq> Inl (Crash c)"
        and t': "txn w2 = Some t'" "adds_items rid (set (all_urls data)) (db w) t'"
        by auto
      show ?thesis
      proof (cases r2)
        case (Inl e)
        with f2 obtain msg where "e = Error msg" by (cases e) auto
        with Inl have "rb = Inl (Error msg)" "wb = w2" using b q ok s by (auto simp: await_def)
        with f1 f2 show ?thesis by auto
      next
        case (Inr x)
        obtain r3 w3 where c: "query COMMIT w2 = (r3, w3)" by (cases "query COMMIT w2")
        from query_COMMIT_cases [OF t'(1) c] show ?thesis
        proof
          assume "r3 = Inr [] \<and> db w3 = t' \<and> history w3 = history w2 @ [t']"
          moreover from this have "rb = Inr ()" "wb = w3"
            using b q ok s Inr c by (auto simp: await_def ret_def)
          ultimately show ?thesis using t' f1 f2 by auto
        next
          assume e: "(\<exists>msg. r3 = Inl (Error msg)) \<and> db w3 = db w2 \<and> history w3 = history w2"
          then obtain msg where "r3 = Inl (Error msg)" by blast
          then have "rb = Inl (Error msg)" "wb = w3"
            using b q ok s Inr c by (auto simp: await_def ret_def)
          with e f1 f2 show ?thesis by auto
        qed
      qed
    qed
  qed
  from body show ?thesis
  proof
    assume "rb = Inr () \<and> adds_items rid (set (all_urls data)) (db w) (db wb) \<and>
            history wb = history w @ [db wb]"
    moreover from this have "r = Inr ()" "w' = wb"
      using assms b by (auto simp: try_catch_def)
    ultimately show ?thesis by simp
  next
    assume e: "(\<exists>msg. rb = Inl (Error msg)) \<and> db wb = db w \<and> history wb = history w"
    then obtain msg where m: "rb = Inl (Error msg)" by blast
    then have "await (query ROLLBACK) (\<lambda>u. throw (Error msg)) wb = (r, w')"
      using assms b by (auto simp: try_catch_def)
    from rollback_rethrow [OF this] e show ?thesis by simp
  qed
qed

lemma storeProductData_cases:
  assumes "storeProductData rid data w = (r, w')"
  shows "(r = Inr () \<and> adds_items rid (set (all_urls data)) (db w) (db w') \<and>
            history w' = history w @ [db w']) \<or>
         ((\<exists>msg. r = Inl (Error msg)) \<and> db w' = db w \<and> history w' = history w)"
proof (cases "fault w (calls w)")
  case (Some msg)
  then have "r = Inl (Error msg)" "w' = w\<lparr>calls := Suc (calls w)\<rparr>"
    using assms by (auto simp: storeProductData_def await_def pool_connect_def outcall_def)
  then show ?thesis by simp
next
  case None
  let ?w0 = "w\<lparr>calls := Suc (calls w), txn := None\<rparr>"
  let ?p = "try_catch
          (await (query BEGIN) (\<lambda>u.
           await (store_rows rid data) (\<lambda>u.
           await (query COMMIT) (\<lambda>u.
           ret ()))))
          (\<lambda>e. await (query ROLLBACK) (\<lambda>u. throw e))"
  obtain rp wp where p: "?p ?w0 = (rp, wp)" by (cases "?p ?w0")
  have run: "try_finally ?p release ?w0 = (r, w')"
    using assms None by (simp add: storeProductData_def await_def pool_connect_def outcall_def)
  from store_protected [OF p] show ?thesis
  proof
    assume a: "rp = Inr () \<and> adds_items rid (set (all_urls data)) (db ?w0) (db wp) \<and>
            history wp = history ?w0 @ [db wp]"
    then have "r = Inr ()" "w' = wp\<lparr>txn := None\<rparr>"
      using run p by (auto simp: try_finally_def release_def)
    with a show ?thesis by simp
  next
    assume a: "(\<exists>msg. rp = Inl (Error msg)) \<and> db wp = db ?w0 \<and> history wp = history ?w0"
    then obtain msg where "rp = Inl (Error msg)" by blast
    then have "r = Inl (Error msg)" "w' = wp\<lparr>txn := None\<rparr>"
      using run p by (auto simp: try_finally_def release_def)
    with a show ?thesis by simp
  qed
qed

lemma createRequest_cases:
  assumes "createRequest w = (r, w')"
  shows "(r = Inr (request_seq (db w)) \<and> db w' = snd (exec (INSERT_request ''pending'') (db w)) \<and>
            history w' = history w @ [db w']) \<or>
         ((\<exists>msg. r = Inl (Error msg)) \<and> db w' = db w \<and> history w' = history w)"
  using assms
  by (auto simp: createRequest_def await_def try_catch_def try_finally_def pool_connect_def
      outcall_def query_def set_db_def release_def ret_def throw_def rows0_id_def
      split: option.splits)

section \<open>The invariant on completed jobs\<close>

lemma store_ok_same:
  "store_ok w \<Longrightarrow> db w' = db w \<Longrightarrow> history w' = history w \<Longrightarrow> store_ok w'"
  by (simp add: store_ok_def)

lemma store_ok_commit:
  "store_ok w \<Longrightarrow> history w' = history w @ [db w'] \<Longrightarrow> wf_tables (db w') \<Longrightarrow>
   completed_inv (db w') \<Longrightarrow> store_ok w'"
  by (simp add: store_ok_def)

lemma ready_same:
  "ready rid U D w \<Longrightarrow> db w' = db w \<Longrightarrow> history w' = history w \<Longrightarrow> ready rid U D w'"
  by (simp add: ready_def store_ok_def)

lemma ready_mono: "ready rid U D w \<Longrightarrow> D' \<subseteq> D \<Longrightarrow> ready rid U D' w"
  unfolding ready_def by blast

lemma images_of_INSERT_request:
  "images_of rid (snd (exec (INSERT_request st) t)) = images_of rid t"
  by (simp add: images_of_def products_of_def)

lemma wf_INSERT_request: "wf_tables t \<Longrightarrow> wf_tables (snd (exec (INSERT_request st) t))"
  by (auto simp: wf_tables_def less_Suc_eq)

lemma completed_inv_INSERT_request:
  "completed_inv t \<Longrightarrow> completed_inv (snd (exec (INSERT_request ''pending'') t))"
  unfolding completed_inv_def images_of_INSERT_request by auto

lemma not_completed_INSERT_request:
  "wf_tables t \<Longrightarrow> not_completed (request_seq t) (snd (exec (INSERT_request ''pending'') t))"
  by (auto simp: not_completed_def wf_tables_def)

lemma no_images_INSERT_request:
  "wf_tables t \<Longrightarrow> images_of (request_seq t) (snd (exec (INSERT_request st) t)) = []"
  unfolding images_of_INSERT_request
  by (auto simp: images_of_def products_of_def wf_tables_def filter_empty_conv)

lemma wf_adds_items:
  assumes "wf_tables t" "adds_items rid U t t'" "rid < request_seq t"
  shows "wf_tables t'"
proof -
  from assms(2) obtain ps "is" where
    a: "requests t' = requests t" "request_seq t' = request_seq t" "product_seq t \<le> product_seq t'"
      "products t' = products t @ ps" "images t' = images t @ is"
      "\<forall>p \<in> set ps. request_id p = rid \<and> product_seq t \<le> prod_id p \<and> prod_id p < product_seq t'"
      "\<forall>i \<in> set is. product_seq t \<le> product_id i \<and> product_id i < product_seq t' \<and>
            input_url i \<in> U \<and> processing_status i = ''pending'' \<and> output_url i = None"
    unfolding adds_items_def by blast
  show ?thesis
    using assms(1,3) a unfolding wf_tables_def by (auto simp: less_le_trans)
qed

lemma images_of_adds_items:
  assumes "wf_tables t" "adds_items rid U t t'"
  shows "i \<in> set (images_of rid' t') \<Longrightarrow>
           i \<in> set (images_of rid' t) \<or> (rid' = rid \<and> input_url i \<in> U)"
proof -
  assume i: "i \<in> set (images_of rid' t')"
  from assms(2) obtain ps "is" where
    a: "requests t' = requests t" "request_seq t' = request_seq t" "product_seq t \<le> product_seq t'"
      "products t' = products t @ ps" "images t' = images t @ is"
      "\<forall>p \<in> set ps. request_id p = rid \<and> product_seq t \<le> prod_id p \<and> prod_id p < product_seq t'"
      "\<forall>i \<in> set is. product_seq t \<le> product_id i \<and> product_id i < product_seq t' \<and>
            input_url i \<in> U \<and> processing_status i = ''pending'' \<and> output_url i = None"
    unfolding adds_items_def by blast
  from i obtain p where p: "p \<in> set (products t')" "request_id p = rid'" "prod_id p = product_id i"
    and ii: "i \<in> set (images t')"
    by (auto simp: images_of_def products_of_def)
  show ?thesis
  proof (cases "i \<in> set is")
    case True
    then have lo: "product_seq t \<le> product_id i" and u: "input_url i \<in> U" using a(7) by auto
    have "p \<in> set ps"
    proof (rule ccontr)
      assume "p \<notin> set ps"
      then have "p \<in> set (products t)" using p(1) a(4) by auto
      then have "prod_id p < product_seq t" using assms(1) by (simp add: wf_tables_def)
      with lo p(3) show False by simp
    qed
    then have "rid' = rid" using a(6) p(2) by auto
    with u show ?thesis by simp
  next
    case False
    then have old: "i \<in> set (images t)" using ii a(5) by auto
    then have hi: "product_id i < product_seq t" using assms(1) by (simp add: wf_tables_def)
    have "p \<in> set (products t)"
    proof (rule ccontr)
      assume "p \<notin> set (products t)"
      then have "p \<in> set ps" using p(1) a(4) by auto
      then have "product_seq t \<le> prod_id p" using a(6) by auto
      with hi p(3) show False by simp
    qed
    then have "product_id i \<in> set (products_of rid' t)"
      using p(2,3) by (force simp: products_of_def)
    with old show ?thesis by (simp add: images_of_def)
  qed
qed

lemma completed_inv_adds_items:
  assumes "wf_tables t" "completed_inv t" "not_completed rid t" "adds_items rid U t t'"
  shows "completed_inv t'"
  unfolding completed_inv_def
proof (intro ballI impI)
  fix r i
  assume r: "r \<in> set (requests t')" "req_status r = ''completed''"
    and i: "i \<in> set (images_of (req_id r) t')"
  have rt: "r \<in> set (requests t)" using r(1) assms(4) by (simp add: adds_items_def)
  then have ne: "req_id r \<noteq> rid" using assms(3) r(2) by (auto simp: not_completed_def)
  from images_of_adds_items [OF assms(1,4) i] ne
  have "i \<in> set (images_of (req_id r) t)" by simp
  with assms(2) rt r(2) show "processing_status i = ''completed''"
    by (auto simp: completed_inv_def)
qed

lemma not_completed_adds_items:
  "adds_items rid U t t' \<Longrightarrow> not_completed rid' t \<Longrightarrow> not_completed rid' t'"
  by (simp add: adds_items_def not_completed_def)

lemma images_of_UPDATE_request:
  "images_of rid' (snd (exec (UPDATE_request st rid) t)) = images_of rid' t"
  by (simp add: images_of_def products_of_def)

lemma wf_UPDATE_request: "wf_tables t \<Longrightarrow> wf_tables (snd (exec (UPDATE_request st rid) t))"
  by (auto simp: wf_tables_def)

lemma completed_inv_UPDATE_request:
  assumes "completed_inv t"
    and "st = ''completed'' \<longrightarrow> (\<forall>i \<in> set (images_of rid t). processing_status i = ''completed'')"
  shows "completed_inv (snd (exec (UPDATE_request st rid) t))"
  unfolding completed_inv_def images_of_UPDATE_request
proof (intro ballI impI)
  fix r i
  assume r: "r \<in> set (requests (snd (exec (UPDATE_request st rid) t)))" "req_status r = ''completed''"
    and i: "i \<in> set (images_of (req_id r) t)"
  from r(1) obtain r0 where r0: "r0 \<in> set (requests t)"
    and rr: "r = (if req_id r0 = rid then r0\<lparr>req_status := st\<rparr> else r0)"
    by auto
  show "processing_status i = ''completed''"
  proof (cases "req_id r0 = rid")
    case True
    with rr r(2) have "st = ''completed''" "req_id r = rid" by simp_all
    with assms(2) i show ?thesis by simp
  next
    case False
    with rr have "r = r0" by simp
    with r0 r(2) i assms(1) show ?thesis unfolding completed_inv_def by blast
  qed
qed

lemma not_completed_UPDATE_request:
  assumes "st \<noteq> ''completed''"
  shows "not_completed rid (snd (exec (UPDATE_request st rid) t))"
  unfolding not_completed_def
proof (intro ballI impI)
  fix r
  assume r: "r \<in> set (requests (snd (exec (UPDATE_request st rid) t)))" "req_id r = rid"
  from r(1) obtain r0 where r0: "r0 \<in> set (requests t)"
    and rr: "r = (if req_id r0 = rid then r0\<lparr>req_status := st\<rparr> else r0)"
    by auto
  have "req_status r = st"
  proof (cases "req_id r0 = rid")
    case True
    with rr show ?thesis by simp
  next
    case False
    with rr r(2) show ?thesis by simp
  qed
  with assms show "req_status r \<noteq> ''completed''" by blast
qed

lemma wf_UPDATE_images: "wf_tables t \<Longrightarrow> wf_tables (snd (exec (UPDATE_images st out rid url) t))"
  by (auto simp: wf_tables_def)

lemma requests_UPDATE_images:
  "requests (snd (exec (UPDATE_images st out rid url) t)) = requests t"
  by simp

lemma completed_inv_UPDATE_images:
  assumes "completed_inv t"
  shows "completed_inv (snd (exec (UPDATE_images ''completed'' out rid url) t))"
  unfolding completed_inv_def images_of_UPDATE_images requests_UPDATE_images
proof (intro ballI impI)
  fix r i
  let ?f = "\<lambda>i. if product_id i \<in> set (products_of rid t) \<and> input_url i = url
              then i\<lparr>processing_status := ''completed'', output_url := out\<rparr> else i"
  assume r: "r \<in> set (requests t)" "req_status r = ''completed''"
    and i: "i \<in> set (map ?f (images_of (req_id r) t))"
  from i obtain j where j: "j \<in> set (images_of (req_id r) t)" and ij: "i = ?f j" by auto
  from assms r j have "processing_status j = ''completed''"
    unfolding completed_inv_def by blast
  with ij show "processing_status i = ''completed''" by simp
qed

lemma not_completed_UPDATE_images:
  "not_completed rid' t \<Longrightarrow> not_completed rid' (snd (exec (UPDATE_images st out rid url) t))"
  by (simp add: not_completed_def)

lemma compressImage_store:
  assumes "compressImage url w = (r, w')"
  shows "db w' = db w \<and> history w' = history w \<and> (\<forall>c. r \<noteq> Inl (Crash c))"
  using assms
  by (auto simp: compressImage_def await_def axios_get_def emit_def outcall_def sharp_jpeg_def
      date_now_def ret_def split: option.splits)

lemma generateOutputCsv_store:
  assumes "generateOutputCsv stringify data w = (r, w')"
  shows "db w' = db w \<and> history w' = history w \<and> (\<forall>c. r \<noteq> Inl (Crash c))"
  using assms
  by (auto simp: generateOutputCsv_def await_def writeFile_def outcall_def throw_def
      date_now_def ret_def split: option.splits sum.splits)

lemma sendWebhookNotification_store:
  assumes "sendWebhookNotification requestId path w = (r, w')"
  shows "db w' = db w \<and> history w' = history w \<and> r = Inr ()"
  using assms
  by (auto simp: sendWebhookNotification_def try_catch_def axios_post_def await_def emit_def
      outcall_def ret_def split: option.splits)

lemma ready_UPDATE_images:
  assumes "ready rid U D w"
    and "db w' = snd (exec (UPDATE_images ''completed'' out rid url) (db w))"
    and "history w' = history w @ [db w']"
  shows "ready rid U (insert url D) w'"
proof -
  from assms(1) have ok: "store_ok w" and nc: "not_completed rid (db w)"
    and im: "\<forall>i \<in> set (images_of rid (db w)).
         input_url i \<in> U \<and> (input_url i \<in> D \<longrightarrow> processing_status i = ''completed'')"
    by (simp_all add: ready_def)
  have ok': "store_ok w'"
  proof (rule store_ok_commit [OF ok assms(3)])
    show "wf_tables (db w')"
      unfolding assms(2) using ok by (intro wf_UPDATE_images) (simp add: store_ok_def)
    show "completed_inv (db w')"
      unfolding assms(2) using ok by (intro completed_inv_UPDATE_images) (simp add: store_ok_def)
  qed
  have nc': "not_completed rid (db w')"
    unfolding assms(2) using nc by (rule not_completed_UPDATE_images)
  have im': "input_url i \<in> U \<and> (input_url i \<in> insert url D \<longrightarrow> processing_status i = ''completed'')"
    if "i \<in> set (images_of rid (db w'))" for i
  proof -
    let ?f = "\<lambda>i. if product_id i \<in> set (products_of rid (db w)) \<and> input_url i = url
              then i\<lparr>processing_status := ''completed'', output_url := out\<rparr> else i"
    from that obtain j where j: "j \<in> set (images_of rid (db w))" and ij: "i = ?f j"
      unfolding assms(2) images_of_UPDATE_images by auto
    from j have p: "product_id j \<in> set (products_of rid (db w))" by (simp add: images_of_def)
    from im j have ju: "input_url j \<in> U"
      and jd: "input_url j \<in> D \<longrightarrow> processing_status j = ''completed''" by auto
    show ?thesis
    proof (cases "input_url j = url")
      case True
      with ij p ju show ?thesis by simp
    next
      case False
      with ij have "i = j" by simp
      with False ju jd show ?thesis by simp
    qed
  qed
  show ?thesis
    unfolding ready_def using ok' nc' im' by blast
qed

lemma process_urls_ready:
  assumes "ready rid U D w" "process_urls rid urls outs w = (r, w')"
  shows "(\<forall>x. r = Inr x \<longrightarrow> ready rid U (D \<union> set urls) w') \<and>
         (\<forall>e. r = Inl e \<longrightarrow> ready rid U D w' \<and> (\<exists>msg. e = Error msg))"
  using assms
proof (induction urls arbitrary: D outs w)
  case Nil
  then show ?case by (auto simp: ret_def)
next
  case (Cons url rest)
  obtain rc wc where c: "compressImage url w = (rc, wc)" by (cases "compressImage url w")
  from compressImage_store [OF c]
  have fc: "db wc = db w" "history wc = history w" "\<forall>c. rc \<noteq> Inl (Crash c)" by simp_all
  have rdc: "ready rid U D wc" using Cons.prems(1) fc(1,2) by (rule ready_same)
  show ?case
  proof (cases rc)
    case (Inl e)
    with fc obtain msg where m: "e = Error msg" by (cases e) auto
    have "r = Inl e" "w' = wc" using Cons.prems(2) c Inl by (auto simp: await_def)
    then show ?thesis using rdc m by simp
  next
    case (Inr outputUrl)
    obtain ru wu where u: "updateImageStatus rid url ''completed'' (Some outputUrl) wc = (ru, wu)"
      by (cases "updateImageStatus rid url ''completed'' (Some outputUrl) wc")
    from updateImageStatus_cases [OF u] show ?thesis
    proof
      assume a: "(\<exists>msg. ru = Inl (Error msg)) \<and> db wu = db wc \<and> history wu = history wc"
      then obtain msg where "ru = Inl (Error msg)" by blast
      then have "r = Inl (Error msg)" "w' = wu"
        using Cons.prems(2) c Inr u by (auto simp: await_def)
      moreover have "ready rid U D wu" using rdc a by (blast intro: ready_same)
      ultimately show ?thesis by simp
    next
      assume a: "ru = Inr () \<and>
        db wu = snd (exec (UPDATE_images ''completed'' (Some outputUrl) rid url) (db wc)) \<and>
        history wu = history wc @ [db wu]"
      then have rdu: "ready rid U (insert url D) wu"
        using ready_UPDATE_images [OF rdc] by blast
      have rest: "process_urls rid rest (outs @ [outputUrl]) wu = (r, w')"
        using Cons.prems(2) c Inr u a by (auto simp: await_def)
      note IH = Cons.IH [OF rdu rest]
      have eq: "insert url D \<union> set rest = D \<union> set (url # rest)" by auto
      have ok: "\<forall>x. r = Inr x \<longrightarrow> ready rid U (D \<union> set (url # rest)) w'"
        using IH unfolding eq by blast
      have sub: "D \<subseteq> insert url D" by blast
      have err: "\<forall>e. r = Inl e \<longrightarrow> ready rid U D w' \<and> (\<exists>msg. e = Error msg)"
        using IH ready_mono [OF _ sub] by blast
      from ok err show ?thesis by blast
    qed
  qed
qed

lemma process_rows_ready:
  assumes "ready rid U D w" "process_rows rid data pd w = (r, w')"
  shows "(\<forall>x. r = Inr x \<longrightarrow> ready rid U (D \<union> set (all_urls data)) w') \<and>
         (\<forall>e. r = Inl e \<longrightarrow> ready rid U D w' \<and> (\<exists>msg. e = Error msg))"
  using assms
proof (induction data arbitrary: D pd w)
  case Nil
  then show ?case by (auto simp: ret_def all_urls_def)
next
  case (Cons row data)
  show ?case
  proof (cases "row ''Input Image Urls''")
    case None
    then have "r = Inl (Error ''Cannot read properties of undefined'')" "w' = w"
      using Cons.prems(2) by (auto simp: await_def url_list_def throw_def)
    with Cons.prems(1) show ?thesis by simp
  next
    case (Some s)
    define urls where "urls = map trim (split CHR '','' s)"
    have ru: "row_urls row = urls" using Some by (simp add: row_urls_def urls_def)
    have ul: "url_list (row ''Input Image Urls'') = ret urls"
      using Some by (simp add: url_list_def urls_def)
    have run: "await (process_urls rid urls []) (\<lambda>outputUrls.
       process_rows rid data
         (pd @ [\<lparr>out_serial = row ''S. No.'', out_name = row ''Product Name'',
            out_inputs = (case row ''Input Image Urls'' of Some s \<Rightarrow> s | None \<Rightarrow> []),
            out_outputs = join '', '' outputUrls\<rparr>])) w = (r, w')"
      using Cons.prems(2) by (simp add: ul await_ret)
    obtain r1 w1 where p: "process_urls rid urls [] w = (r1, w1)"
      by (cases "process_urls rid urls [] w")
    note P = process_urls_ready [OF Cons.prems(1) p]
    show ?thesis
    proof (cases r1)
      case (Inl e)
      with P have "ready rid U D w1" "\<exists>msg. e = Error msg" by blast+
      moreover have "r = Inl e" "w' = w1"
        using run p Inl by (auto simp: await_def)
      ultimately show ?thesis by simp
    next
      case (Inr outputUrls)
      with P have rd1: "ready rid U (D \<union> set urls) w1" by blast
      obtain pd' where rest: "process_rows rid data pd' w1 = (r, w')"
        using run p Inr by (auto simp: await_def)
      note IH = Cons.IH [OF rd1 rest]
      have eq: "D \<union> set urls \<union> set (all_urls data) = D \<union> set (all_urls (row # data))"
        using ru by (auto simp: all_urls_def)
      have ok: "\<forall>x. r = Inr x \<longrightarrow> ready rid U (D \<union> set (all_urls (row # data))) w'"
        using IH unfolding eq by blast
      have sub: "D \<subseteq> D \<union> set urls" by blast
      have err: "\<forall>e. r = Inl e \<longrightarrow> ready rid U D w' \<and> (\<exists>msg. e = Error msg)"
        using IH ready_mono [OF _ sub] by blast
      from ok err show ?thesis by blast
    qed
  qed
qed

lemma store_ok_failed:
  assumes "ready rid U D w" "updateRequestStatus rid ''failed'' w = (r, w')"
  shows "store_ok w'"
proof -
  from assms(1) have ok: "store_ok w" by (simp add: ready_def)
  from updateRequestStatus_cases [OF assms(2)] show ?thesis
  proof
    assume "(\<exists>msg. r = Inl (Error msg)) \<and> db w' = db w \<and> history w' = history w"
    with ok show ?thesis by (blast intro: store_ok_same)
  next
    assume a: "r = Inr () \<and> db w' = snd (exec (UPDATE_request ''failed'' rid) (db w)) \<and>
            history w' = history w @ [db w']"
    have ne: "''failed'' \<noteq> ''completed''" by simp
    from a have d: "db w' = snd (exec (UPDATE_request ''failed'' rid) (db w))" by blast
    have "wf_tables (db w')"
      unfolding d using ok by (intro wf_UPDATE_request) (simp add: store_ok_def)
    moreover have "completed_inv (db w')"
      unfolding d using ok ne by (intro completed_inv_UPDATE_request) (simp_all add: store_ok_def)
    ultimately show ?thesis using ok a by (blast intro: store_ok_commit)
  qed
qed

lemma store_ok_completed:
  assumes "ready rid U D w" "U \<subseteq> D"
    and "db w' = snd (exec (UPDATE_request ''completed'' rid) (db w))"
    and "history w' = history w @ [db w']"
  shows "store_ok w'"
proof -
  from assms(1) have ok: "store_ok w"
    and im: "\<forall>i \<in> set (images_of rid (db w)).
         input_url i \<in> U \<and> (input_url i \<in> D \<longrightarrow> processing_status i = ''completed'')"
    by (simp_all add: ready_def)
  have all: "\<forall>i \<in> set (images_of rid (db w)). processing_status i = ''completed''"
    using im assms(2) by blast
  have "wf_tables (db w')"
    unfolding assms(3) using ok by (intro wf_UPDATE_request) (simp add: store_ok_def)
  moreover have "completed_inv (db w')"
    unfolding assms(3) using ok all by (intro completed_inv_UPDATE_request) (simp_all add: store_ok_def)
  ultimately show ?thesis using ok assms(4) by (blast intro: store_ok_commit)
qed

lemma processImages_store_ok:
  assumes rd: "ready rid (set (all_urls data)) D w"
    and run: "processImages stringify rid data w = (r, w')"
  shows "store_ok w'"
proof -
  let ?U = "set (all_urls data)"
  obtain rp wp where p: "process_rows rid data [] w = (rp, wp)"
    by (cases "process_rows rid data [] w")
  note P = process_rows_ready [OF rd p]
  show ?thesis
  proof (cases rp)
    case (Inl e)
    with P obtain msg where e: "e = Error msg" and rdp: "ready rid ?U D wp" by blast
    have "updateRequestStatus rid ''failed'' wp = (r, w')"
      using run p Inl e by (simp add: processImages_def try_catch_def await_def)
    with rdp show ?thesis by (rule store_ok_failed)
  next
    case (Inr pd)
    with P have rdp: "ready rid ?U (D \<union> ?U) wp" by blast
    obtain rg wg where g: "generateOutputCsv stringify pd wp = (rg, wg)"
      by (cases "generateOutputCsv stringify pd wp")
    from generateOutputCsv_store [OF g]
    have fg: "db wg = db wp" "history wg = history wp" "\<forall>c. rg \<noteq> Inl (Crash c)" by simp_all
    have rdg: "ready rid ?U (D \<union> ?U) wg" using rdp fg(1,2) by (rule ready_same)
    show ?thesis
    proof (cases rg)
      case e: (Inl e)
      with fg obtain msg where m: "e = Error msg" by (cases e) auto
      have "updateRequestStatus rid ''failed'' wg = (r, w')"
        using run p Inr g e m by (simp add: processImages_def try_catch_def await_def)
      with rdg show ?thesis by (rule store_ok_failed)
    next
      case path: (Inr outputCsvPath)
      obtain ru wu where u: "updateRequestStatus rid ''completed'' wg = (ru, wu)"
        by (cases "updateRequestStatus rid ''completed'' wg")
      from updateRequestStatus_cases [OF u] show ?thesis
      proof
        assume a: "(\<exists>msg. ru = Inl (Error msg)) \<and> db wu = db wg \<and> history wu = history wg"
        then obtain msg where m: "ru = Inl (Error msg)" by blast
        have rdu: "ready rid ?U (D \<union> ?U) wu" using rdg a by (blast intro: ready_same)
        have "updateRequestStatus rid ''failed'' wu = (r, w')"
          using run p Inr g path u m by (simp add: processImages_def try_catch_def await_def)
        with rdu show ?thesis by (rule store_ok_failed)
      next
        assume a: "ru = Inr () \<and> db wu = snd (exec (UPDATE_request ''completed'' rid) (db wg)) \<and>
            history wu = history wg @ [db wu]"
        have sub: "?U \<subseteq> D \<union> ?U" by blast
        have oku: "store_ok wu"
          using store_ok_completed [OF rdg sub] a by blast
        obtain rs ws where s: "sendWebhookNotification rid outputCsvPath wu = (rs, ws)"
          by (cases "sendWebhookNotification rid outputCsvPath wu")
        from sendWebhookNotification_store [OF s]
        have fs: "db ws = db wu" "history ws = history wu" "rs = Inr ()" by simp_all
        have "w' = ws"
          using run p Inr g path u a s fs(3) by (simp add: processImages_def try_catch_def await_def)
        with oku fs(1,2) show ?thesis by (blast intro: store_ok_same)
      qed
    qed
  qed
qed

lemma upload_body_store:
  assumes ok: "store_ok w"
    and run: "(await (validateCSV parse filePath) (\<lambda>validatedData.
              await createRequest (\<lambda>requestId.
              await (storeProductData requestId validatedData) (\<lambda>u.
              await (updateRequestStatus requestId ''processing'') (\<lambda>u.
              await (unlinkSync filePath) (\<lambda>u.
              await (respond 200 ''File uploaded and processing started'' (Some requestId)) (\<lambda>u.
              ret (Some (requestId, validatedData))))))))) w = (r, w')"
  shows "store_ok w' \<and>
         (\<forall>requestId validatedData. r = Inr (Some (requestId, validatedData)) \<longrightarrow>
            ready requestId (set (all_urls validatedData)) {} w')"
proof (cases "validateCSV parse filePath w")
  case (Pair r0 w0)
  have w0: "w0 = w" using Pair
    by (auto simp: validateCSV_def split: sum.splits option.splits)
  show ?thesis
  proof (cases r0)
    case (Inl e)
    then have "r = Inl e" "w' = w" using Pair run w0 by (auto simp: await_def)
    with ok show ?thesis by simp
  next
    case (Inr validatedData)
    let ?U = "set (all_urls validatedData)"
    obtain r1 w1 where c: "createRequest w = (r1, w1)" by (cases "createRequest w")
    from createRequest_cases [OF c] show ?thesis
    proof
      assume a: "(\<exists>msg. r1 = Inl (Error msg)) \<and> db w1 = db w \<and> history w1 = history w"
      then obtain msg where "r1 = Inl (Error msg)" by blast
      then have "r = Inl (Error msg)" "w' = w1" using Pair run w0 Inr c by (auto simp: await_def)
      with ok a show ?thesis by (auto intro: store_ok_same)
    next
      assume a: "r1 = Inr (request_seq (db w)) \<and>
            db w1 = snd (exec (INSERT_request ''pending'') (db w)) \<and>
            history w1 = history w @ [db w1]"
      define rid where "rid = request_seq (db w)"
      have wf0: "wf_tables (db w)" "completed_inv (db w)" using ok by (simp_all add: store_ok_def)
      from a have d1: "db w1 = snd (exec (INSERT_request ''pending'') (db w))" by blast
      have wf1: "wf_tables (db w1)" unfolding d1 using wf0(1) by (rule wf_INSERT_request)
      have ci1: "completed_inv (db w1)"
        unfolding d1 using wf0(2) by (rule completed_inv_INSERT_request)
      have ok1: "store_ok w1" using ok a wf1 ci1 by (blast intro: store_ok_commit)
      have nc1: "not_completed rid (db w1)"
        unfolding d1 rid_def using wf0(1) by (rule not_completed_INSERT_request)
      have im1: "images_of rid (db w1) = []"
        unfolding d1 rid_def using wf0(1) by (rule no_images_INSERT_request)
      have lt1: "rid < request_seq (db w1)" unfolding d1 rid_def by simp
      obtain r2 w2 where s: "storeProductData rid validatedData w1 = (r2, w2)"
        by (cases "storeProductData rid validatedData w1")
      from storeProductData_cases [OF s] show ?thesis
      proof
        assume b: "(\<exists>msg. r2 = Inl (Error msg)) \<and> db w2 = db w1 \<and> history w2 = history w1"
        then obtain msg where "r2 = Inl (Error msg)" by blast
        then have "r = Inl (Error msg)" "w' = w2"
          using Pair run w0 Inr c a s unfolding rid_def by (auto simp: await_def)
        with ok1 b show ?thesis by (auto intro: store_ok_same)
      next
        assume b: "r2 = Inr () \<and> adds_items rid ?U (db w1) (db w2) \<and>
            history w2 = history w1 @ [db w2]"
        then have ad: "adds_items rid ?U (db w1) (db w2)" by simp
        have wf2: "wf_tables (db w2)" using wf1 ad lt1 by (rule wf_adds_items)
        have ci2: "completed_inv (db w2)" using wf1 ci1 nc1 ad by (rule completed_inv_adds_items)
        have ok2: "store_ok w2" using ok1 b wf2 ci2 by (blast intro: store_ok_commit)
        have nc2: "not_completed rid (db w2)" using ad nc1 by (rule not_completed_adds_items)
        have im2: "\<forall>i \<in> set (images_of rid (db w2)). input_url i \<in> ?U"
        proof
          fix i
          assume "i \<in> set (images_of rid (db w2))"
          from images_of_adds_items [OF wf1 ad this]
          show "input_url i \<in> ?U" unfolding im1 by simp
        qed
        have rd2: "ready rid ?U {} w2"
          unfolding ready_def using ok2 nc2 im2 by simp
        obtain r3 w3 where u: "updateRequestStatus rid ''processing'' w2 = (r3, w3)"
          by (cases "updateRequestStatus rid ''processing'' w2")
        from updateRequestStatus_cases [OF u] show ?thesis
        proof
          assume d: "(\<exists>msg. r3 = Inl (Error msg)) \<and> db w3 = db w2 \<and> history w3 = history w2"
          then obtain msg where "r3 = Inl (Error msg)" by blast
          then have "r = Inl (Error msg)" "w' = w3"
            using Pair run w0 Inr c a s b u unfolding rid_def by (auto simp: await_def)
          with ok2 d show ?thesis by (auto intro: store_ok_same)
        next
          assume d: "r3 = Inr () \<and> db w3 = snd (exec (UPDATE_request ''processing'' rid) (db w2)) \<and>
            history w3 = history w2 @ [db w3]"
          have ne: "''processing'' \<noteq> ''completed''" by simp
          from d have d3: "db w3 = snd (exec (UPDATE_request ''processing'' rid) (db w2))" by blast
          have wf3: "wf_tables (db w3)" unfolding d3 using wf2 by (rule wf_UPDATE_request)
          have ci3: "completed_inv (db w3)"
            unfolding d3 using ci2 ne by (intro completed_inv_UPDATE_request) simp_all
          have ok3: "store_ok w3" using ok2 d wf3 ci3 by (blast intro: store_ok_commit)
          have nc3: "not_completed rid (db w3)"
            unfolding d3 using ne by (rule not_completed_UPDATE_request)
          have im3: "\<forall>i \<in> set (images_of rid (db w3)). input_url i \<in> ?U"
            unfolding d3 images_of_UPDATE_request using im2 .
          have rd3: "ready rid ?U {} w3"
            unfolding ready_def using ok3 nc3 im3 by simp
          have tail: "(await (unlinkSync filePath) (\<lambda>u.
              await (respond 200 ''File uploaded and processing started'' (Some rid)) (\<lambda>u.
              ret (Some (rid, validatedData))))) w3 = (r, w')"
            using Pair run w0 Inr c a s b u d unfolding rid_def by (auto simp: await_def)
          then have fin: "db w' = db w3 \<and> history w' = history w3 \<and>
              (\<forall>x. r = Inr (Some x) \<longrightarrow> x = (rid, validatedData))"
            by (auto simp: await_def unlinkSync_def outcall_def respond_def emit_def ret_def
                split: option.splits)
          have "ready rid ?U {} w'" using rd3 fin by (blast intro: ready_same)
          moreover from this have "store_ok w'" by (simp add: ready_def)
          ultimately show ?thesis using fin by auto
        qed
      qed
    qed
  qed
qed

lemma uploadDoc_store_ok:
  assumes ok: "store_ok w" and run: "uploadDoc parse req_file w = (r, w')"
  shows "store_ok w' \<and>
         (\<forall>requestId validatedData. r = Inr (Some (requestId, validatedData)) \<longrightarrow>
            ready requestId (set (all_urls validatedData)) {} w')"
proof (cases req_file)
  case None
  then have "r = Inr None" "db w' = db w" "history w' = history w"
    using run by (auto simp: uploadDoc_def try_catch_def await_def respond_def emit_def ret_def)
  with ok show ?thesis by (auto intro: store_ok_same)
next
  case (Some filePath)
  let ?body = "await (validateCSV parse filePath) (\<lambda>validatedData.
              await createRequest (\<lambda>requestId.
              await (storeProductData requestId validatedData) (\<lambda>u.
              await (updateRequestStatus requestId ''processing'') (\<lambda>u.
              await (unlinkSync filePath) (\<lambda>u.
              await (respond 200 ''File uploaded and processing started'' (Some requestId)) (\<lambda>u.
              ret (Some (requestId, validatedData))))))))"
  obtain rb wb where b: "?body w = (rb, wb)" by (cases "?body w")
  note B = upload_body_store [OF ok b]
  have fin: "db w' = db wb \<and> history w' = history wb \<and> (\<forall>x. r = Inr (Some x) \<longrightarrow> rb = Inr (Some x))"
    using run b unfolding Some uploadDoc_def
    by (auto simp: try_catch_def await_def unlinkSync_def outcall_def respond_def emit_def ret_def
        split: option.splits sum.splits error.splits)
  have ok': "store_ok w'" using B fin by (blast intro: store_ok_same)
  have "ready requestId (set (all_urls validatedData)) {} w'"
    if "r = Inr (Some (requestId, validatedData))" for requestId validatedData
  proof -
    from that fin have "rb = Inr (Some (requestId, validatedData))" by blast
    with B have "ready requestId (set (all_urls validatedData)) {} wb" by blast
    with fin show ?thesis by (blast intro: ready_same)
  qed
  with ok' show ?thesis by blast
qed

lemma db_world_done:
  "db world_done =
     \<lparr>requests = [\<lparr>req_id = 1, req_status = ''completed''\<rparr>],
      products = [\<lparr>prod_id = 1, request_id = 1, serial_number = Some ''2'', product_name = Some ''SKU2''\<rparr>],
      images = [\<lparr>product_id = 1, input_url = ''https://b/1.jpg'', processing_status = ''completed'',
                 output_url = Some ''https://compressed-image-url.com/1700000000000.jpg''\<rparr>],
      request_seq = 2, product_seq = 2\<rparr>"
  by (simp add: world_done_def world0_def tables0_def row_b_def run_defs)

lemma history_world_done: "length (history world_done) = 5"
  by (simp add: world_done_def world0_def tables0_def row_b_def run_defs)

subsection \<open>Every state of the store is in its history\<close>

lemma recordedD:
  "recorded m \<Longrightarrow> m w = (r, w') \<Longrightarrow> \<exists>hs. history w' = history w @ hs \<and> db w' = last (db w # hs)"
  unfolding recorded_def by blast

lemma recorded_same:
  "(\<And>w r w'. m w = (r, w') \<Longrightarrow> db w' = db w \<and> history w' = history w) \<Longrightarrow> recorded m"
  unfolding recorded_def
proof (intro allI impI)
  fix w r w'
  assume s: "\<And>w r w'. m w = (r, w') \<Longrightarrow> db w' = db w \<and> history w' = history w"
    and "m w = (r, w')"
  from s [OF this(2)] have "history w' = history w @ [] \<and> db w' = last (db w # [])" by simp
  then show "\<exists>hs. history w' = history w @ hs \<and> db w' = last (db w # hs)" by blast
qed

lemma recorded_step:
  assumes "history w1 = history w @ hs1" "db w1 = last (db w # hs1)"
    and "history w2 = history w1 @ hs2" "db w2 = last (db w1 # hs2)"
  shows "history w2 = history w @ (hs1 @ hs2) \<and> db w2 = last (db w # hs1 @ hs2)"
  using assms by (cases "hs2 = []") simp_all

lemma recorded_ret: "recorded (ret x)"
  by (rule recorded_same) (simp add: ret_def)

lemma recorded_throw: "recorded (throw e)"
  by (rule recorded_same) (simp add: throw_def)

lemma recorded_await:
  assumes "recorded m" "\<And>x. recorded (k x)"
  shows "recorded (await m k)"
  unfolding recorded_def
proof (intro allI impI)
  fix w r w'
  assume run: "await m k w = (r, w')"
  obtain r1 w1 where m: "m w = (r1, w1)" by (cases "m w")
  from recordedD [OF assms(1) m] obtain hs1
    where h1: "history w1 = history w @ hs1" "db w1 = last (db w # hs1)" by blast
  show "\<exists>hs. history w' = history w @ hs \<and> db w' = last (db w # hs)"
  proof (cases r1)
    case (Inl e)
    then have "w' = w1" using run m by (simp add: await_def)
    with h1 show ?thesis by blast
  next
    case (Inr x)
    then have "k x w1 = (r, w')" using run m by (simp add: await_def)
    from recordedD [OF assms(2) this] obtain hs2
      where "history w' = history w1 @ hs2" "db w' = last (db w1 # hs2)" by blast
    from recorded_step [OF h1 this] show ?thesis by blast
  qed
qed

lemma recorded_try_catch:
  assumes "recorded m" "\<And>e. recorded (h e)"
  shows "recorded (try_catch m h)"
  unfolding recorded_def
proof (intro allI impI)
  fix w r w'
  assume run: "try_catch m h w = (r, w')"
  obtain r1 w1 where m: "m w = (r1, w1)" by (cases "m w")
  from recordedD [OF assms(1) m] obtain hs1
    where h1: "history w1 = history w @ hs1" "db w1 = last (db w # hs1)" by blast
  show "\<exists>hs. history w' = history w @ hs \<and> db w' = last (db w # hs)"
  proof (cases "\<exists>msg. r1 = Inl (Error msg)")
    case True
    then obtain msg where "r1 = Inl (Error msg)" by blast
    then have "h (Error msg) w1 = (r, w')" using run m by (simp add: try_catch_def)
    from recordedD [OF assms(2) this] obtain hs2
      where "history w' = history w1 @ hs2" "db w' = last (db w1 # hs2)" by blast
    from recorded_step [OF h1 this] show ?thesis by blast
  next
    case False
    then have "w' = w1" using run m
      by (auto simp: try_catch_def split: sum.splits error.splits)
    with h1 show ?thesis by blast
  qed
qed

lemma recorded_try_finally:
  assumes "recorded m" "recorded f"
  shows "recorded (try_finally m f)"
  unfolding recorded_def
proof (intro allI impI)
  fix w r w'
  assume run: "try_finally m f w = (r, w')"
  obtain r1 w1 where m: "m w = (r1, w1)" by (cases "m w")
  from recordedD [OF assms(1) m] obtain hs1
    where h1: "history w1 = history w @ hs1" "db w1 = last (db w # hs1)" by blast
  show "\<exists>hs. history w' = history w @ hs \<and> db w' = last (db w # hs)"
  proof (cases "\<exists>c. r1 = Inl (Crash c)")
    case True
    then have "w' = w1" using run m by (auto simp: try_finally_def)
    with h1 show ?thesis by blast
  next
    case False
    obtain r2 w2 where f: "f w1 = (r2, w2)" by (cases "f w1")
    have "w' = w2" using run m f False
      by (auto simp: try_finally_def split: sum.splits error.splits)
    moreover from recordedD [OF assms(2) f] obtain hs2
      where "history w2 = history w1 @ hs2" "db w2 = last (db w1 # hs2)" by blast
    ultimately show ?thesis using recorded_step [OF h1] by blast
  qed
qed

lemma recorded_outcall: "recorded outcall"
  by (rule recorded_same) (auto simp: outcall_def split: option.splits)

lemma recorded_emit: "recorded (emit e)"
  by (rule recorded_same) (simp add: emit_def)

lemma recorded_date_now: "recorded date_now"
  by (rule recorded_same) (auto simp: date_now_def)

lemma recorded_pool_connect: "recorded pool_connect"
  by (rule recorded_same)
     (auto simp: pool_connect_def await_def outcall_def split: option.splits)

lemma recorded_release: "recorded release"
  by (rule recorded_same) (auto simp: release_def)

lemma recorded_query: "recorded (query s)"
  unfolding recorded_def
proof (intro allI impI)
  fix w r w'
  assume run: "query s w = (r, w')"
  have "(db w' = db w \<and> history w' = history w) \<or>
        (\<exists>t. history w' = history w @ [t] \<and> db w' = t)"
    using run
    by (cases s) (auto simp: query_def await_def outcall_def set_db_def
        split: option.splits prod.splits)
  then show "\<exists>hs. history w' = history w @ hs \<and> db w' = last (db w # hs)"
  proof
    assume "db w' = db w \<and> history w' = history w"
    then have "history w' = history w @ [] \<and> db w' = last (db w # [])" by simp
    then show ?thesis by blast
  next
    assume "\<exists>t. history w' = history w @ [t] \<and> db w' = t"
    then obtain t where "history w' = history w @ [t] \<and> db w' = last (db w # [t])" by auto
    then show ?thesis by blast
  qed
qed

lemma recorded_rows0_id: "recorded (rows0_id rows)"
  by (cases rows) (simp_all add: rows0_id_def recorded_ret recorded_throw)

lemma recorded_url_list: "recorded (url_list s)"
  by (cases s) (simp_all add: url_list_def recorded_ret recorded_throw)

lemma recorded_unlinkSync: "recorded (unlinkSync path)"
  by (rule recorded_same) (auto simp: unlinkSync_def await_def outcall_def split: option.splits)

lemma recorded_validateCSV: "recorded (validateCSV parse filePath)"
  by (rule recorded_same) (auto simp: validateCSV_def split: option.splits sum.splits)

lemma recorded_sendWebhookNotification: "recorded (sendWebhookNotification rid path)"
  by (rule recorded_same) (use sendWebhookNotification_store in blast)

lemma recorded_generateOutputCsv: "recorded (generateOutputCsv stringify data)"
  by (rule recorded_same) (use generateOutputCsv_store in blast)

lemma recorded_compressImage: "recorded (compressImage url)"
  by (rule recorded_same) (use compressImage_store in blast)

lemmas recorded_intros = recorded_ret recorded_throw recorded_await recorded_try_catch
  recorded_try_finally recorded_pool_connect recorded_query recorded_release recorded_rows0_id
  recorded_url_list recorded_unlinkSync recorded_validateCSV recorded_emit
  recorded_sendWebhookNotification recorded_generateOutputCsv recorded_compressImage

lemma recorded_createRequest: "recorded createRequest"
  unfolding createRequest_def by (intro recorded_intros)

lemma recorded_insert_images: "recorded (insert_images productId urls)"
  by (induction urls) (auto intro!: recorded_intros)

lemma recorded_store_rows: "recorded (store_rows requestId data)"
  by (induction data) (auto intro!: recorded_intros recorded_insert_images)

lemma recorded_storeProductData: "recorded (storeProductData requestId data)"
  unfolding storeProductData_def by (intro recorded_intros recorded_store_rows)

lemma recorded_updateRequestStatus: "recorded (updateRequestStatus requestId status)"
  unfolding updateRequestStatus_def by (intro recorded_intros)

lemma recorded_updateImageStatus: "recorded (updateImageStatus requestId inputUrl status outputUrl)"
  unfolding updateImageStatus_def by (intro recorded_intros)

lemma recorded_process_urls: "recorded (process_urls rid urls outs)"
  by (induction urls arbitrary: outs) (auto intro!: recorded_intros recorded_updateImageStatus)

lemma recorded_process_rows: "recorded (process_rows rid data pd)"
  by (induction data arbitrary: pd) (auto intro!: recorded_intros recorded_process_urls)

lemma recorded_processImages: "recorded (processImages stringify rid data)"
  unfolding processImages_def
  by (intro recorded_intros recorded_process_rows recorded_updateRequestStatus)

lemma recorded_uploadDoc: "recorded (uploadDoc parse req_file)"
proof (cases req_file)
  case None
  show ?thesis unfolding uploadDoc_def None option.case respond_def
    by (intro recorded_intros)
next
  case (Some filePath)
  show ?thesis unfolding uploadDoc_def Some option.case respond_def
    by (intro recorded_intros recorded_createRequest recorded_storeProductData
        recorded_updateRequestStatus)
qed

lemma recorded_upload_and_process:
  "\<exists>hs. history (upload_and_process parse stringify req_file w) = history w @ hs \<and>
        db (upload_and_process parse stringify req_file w) = last (db w # hs)"
proof -
  obtain r w1 where u: "uploadDoc parse req_file w = (r, w1)" by (cases "uploadDoc parse req_file w")
  from recordedD [OF recorded_uploadDoc u] obtain hs1
    where h1: "history w1 = history w @ hs1" "db w1 = last (db w # hs1)" by blast
  show ?thesis
  proof (cases "\<exists>requestId validatedData. r = Inr (Some (requestId, validatedData))")
    case True
    then obtain requestId validatedData where r: "r = Inr (Some (requestId, validatedData))" by blast
    obtain r2 w2 where p: "processImages stringify requestId validatedData w1 = (r2, w2)"
      by (cases "processImages stringify requestId validatedData w1")
    have e: "upload_and_process parse stringify req_file w = w2"
      using u r p by (simp add: upload_and_process_def)
    from recordedD [OF recorded_processImages p] obtain hs2
      where "history w2 = history w1 @ hs2" "db w2 = last (db w1 # hs2)" by blast
    from recorded_step [OF h1 this] show ?thesis unfolding e by blast
  next
    case False
    then have "upload_and_process parse stringify req_file w = w1"
      using u by (auto simp: upload_and_process_def split: sum.splits option.splits)
    with h1 show ?thesis by auto
  qed
qed

text \<open>
  C2, as the code has it. One ingestion request and the processing it starts keep the store
  well formed and keep the invariant on completed jobs, in the state they leave and in every
  state the store was committed to on the way (the history grows by exactly these states):
  a job in state \<open>completed\<close> has all its images \<open>completed\<close>. The other half of the claim
  fails. In the first counterexample every image of the job was processed and the write of
  the report failed: the job is \<open>failed\<close> and its only image is \<open>completed\<close>. In the second
  the two URLs of the job are the same; the first transformation succeeds and completes both
  image rows, the second fails: the job is \<open>failed\<close> and both its images are \<open>completed\<close>.
\<close>

theorem C2_completed_job_has_completed_images:
  assumes "wf_tables (db w)" and "completed_inv (db w)"
    and "\<forall>t \<in> set (history w). completed_inv t"
  shows "wf_tables (db (upload_and_process parse stringify req_file w)) \<and>
         completed_inv (db (upload_and_process parse stringify req_file w)) \<and>
         (\<forall>t \<in> set (history (upload_and_process parse stringify req_file w)). completed_inv t) \<and>
         (\<exists>hs. history (upload_and_process parse stringify req_file w) = history w @ hs \<and>
            db (upload_and_process parse stringify req_file w) = last (db w # hs))"
proof -
  have ok: "store_ok w" using assms by (simp add: store_ok_def)
  obtain r w1 where u: "uploadDoc parse req_file w = (r, w1)" by (cases "uploadDoc parse req_file w")
  note U = uploadDoc_store_ok [OF ok u]
  have "store_ok (upload_and_process parse stringify req_file w)"
  proof (cases "\<exists>requestId validatedData. r = Inr (Some (requestId, validatedData))")
    case True
    then obtain requestId validatedData where r: "r = Inr (Some (requestId, validatedData))" by blast
    with U have rd: "ready requestId (set (all_urls validatedData)) {} w1" by blast
    obtain r2 w2 where p: "processImages stringify requestId validatedData w1 = (r2, w2)"
      by (cases "processImages stringify requestId validatedData w1")
    have "upload_and_process parse stringify req_file w = w2"
      using u r p by (simp add: upload_and_process_def)
    with processImages_store_ok [OF rd p] show ?thesis by simp
  next
    case False
    then have "upload_and_process parse stringify req_file w = w1"
      using u by (auto simp: upload_and_process_def split: sum.splits option.splits)
    with U show ?thesis by simp
  qed
  then show ?thesis
    using recorded_upload_and_process [of parse stringify req_file w]
    by (simp add: store_ok_def)
qed

theorem C2_witness:
  "wf_tables (db world0) \<and> completed_inv (db world0) \<and> history world0 = [] \<and>
   requests (db world_done) = [\<lparr>req_id = 1, req_status = ''completed''\<rparr>] \<and>
   images (db world_done) =
     [\<lparr>product_id = 1, input_url = ''https://b/1.jpg'', processing_status = ''completed'',
       output_url = Some ''https://compressed-image-url.com/1700000000000.jpg''\<rparr>] \<and>
   length (history world_done) = 5 \<and>
   completed_inv (db world_done) \<and> list_all completed_inv (history world_done)"
proof -
  have a: "wf_tables (db world0)"
    by (simp add: wf_tables_def world0_def tables0_def)
  have b: "completed_inv (db world0)"
    by (simp add: completed_inv_def world0_def tables0_def)
  have c: "history world0 = []" by (simp add: world0_def)
  then have c': "\<forall>t \<in> set (history world0). completed_inv t" by simp
  note T = C2_completed_job_has_completed_images [OF a b c',
      of "\<lambda>c. Inr [row_b]" "\<lambda>rows. Inr ''report''" "Some ''uploads/a''"]
  have d: "completed_inv (db world_done)" "list_all completed_inv (history world_done)"
    using T unfolding world_done_def [symmetric] by (simp_all add: list_all_iff)
  show ?thesis
    using a b c d history_world_done by (simp add: db_world_done)
qed

theorem C2_counterexample:
  "images_of 1 (db world_full_disk) =
     [\<lparr>product_id = 1, input_url = ''https://b/1.jpg'', processing_status = ''completed'',
       output_url = Some ''https://compressed-image-url.com/1700000000000.jpg''\<rparr>] \<and>
   db world_full_disk =
     \<lparr>requests = [\<lparr>req_id = 1, req_status = ''failed''\<rparr>],
      products = [\<lparr>prod_id = 1, request_id = 1, serial_number = Some ''2'', product_name = Some ''SKU2''\<rparr>],
      images = [\<lparr>product_id = 1, input_url = ''https://b/1.jpg'', processing_status = ''completed'',
                 output_url = Some ''https://compressed-image-url.com/1700000000000.jpg''\<rparr>],
      request_seq = 2, product_seq = 2\<rparr> \<and>
   images_of 1 (db world_second_fails) =
     [\<lparr>product_id = 1, input_url = ''https://d/1.jpg'', processing_status = ''completed'',
       output_url = Some ''https://compressed-image-url.com/1700000000000.jpg''\<rparr>,
      \<lparr>product_id = 1, input_url = ''https://d/1.jpg'', processing_status = ''completed'',
       output_url = Some ''https://compressed-image-url.com/1700000000000.jpg''\<rparr>] \<and>
   requests (db world_second_fails) = [\<lparr>req_id = 1, req_status = ''failed''\<rparr>] \<and>
   events world_second_fails =
     [Unlink ''uploads/a'', Respond 200 ''File uploaded and processing started'' (Some 1),
      Get ''https://d/1.jpg'', Get ''https://d/1.jpg'']"
  by (simp add: images_of_def world_full_disk_def world_second_fails_def world0_def tables0_def
      row_b_def row_twice_def run_defs)

section \<open>The life of an image row\<close>























section \<open>Store failures during ingestion\<close>

lemma uploadDoc_createRequest_error:
  assumes "files w filePath = Some content" "parse content = Inr rows" "list_all row_isValid rows"
    and "createRequest w = (Inl (Error msg), w1)" "fault w1 (calls w1) = None"
  shows "fst (uploadDoc parse (Some filePath) w) = Inr None \<and>
         events (snd (uploadDoc parse (Some filePath) w)) =
           events w @ [Unlink filePath, Respond 400 msg None]"
proof -
  have v: "validateCSV parse filePath w = (Inr rows, w)"
    using assms(1-3) by (simp add: validateCSV_def on_end_def)
  from quietD [OF quiet_createRequest assms(4)]
  have f: "files w1 = files w" "events w1 = events w" by simp_all
  show ?thesis
    using v assms(1,4,5) f
    by (simp add: uploadDoc_def try_catch_def await_def unlinkSync_def outcall_def respond_def
        emit_def ret_def)
qed

text \<open>
  C8. What uploadDoc does when the store fails before the acknowledgment: createRequest and
  storeProductData are called inside the inner \<open>try\<close>, whose \<open>catch\<close> answers 400 with the
  message of the error. With a valid file, a refused connection in createRequest and a failed
  insertion in storeProductData are both answered 400 with the message of the store's error,
  not 500 \<open>Internal server error\<close>.
\<close>

theorem C8_store_failure_answered_400:
  "fst (uploadDoc (\<lambda>c. Inr [row_b]) (Some ''uploads/a'') world_db_down) = Inr None \<and>
   events (snd (uploadDoc (\<lambda>c. Inr [row_b]) (Some ''uploads/a'') world_db_down)) =
     [Unlink ''uploads/a'', Respond 400 ''connect ECONNREFUSED 127.0.0.1:5432'' None] \<and>
   fst (uploadDoc (\<lambda>c. Inr [row_b]) (Some ''uploads/a'') world_insert_fails) = Inr None \<and>
   events (snd (uploadDoc (\<lambda>c. Inr [row_b]) (Some ''uploads/a'') world_insert_fails)) =
     [Unlink ''uploads/a'', Respond 400 ''value too long for type character varying(255)'' None]"
  by (simp add: world_db_down_def world_insert_fails_def world0_def tables0_def row_b_def run_defs)

end
